theory Spec2Isabelle
  imports Complex_Main "HOL-Library.Word"
begin

unbundle bit_operations_syntax

section \<open>Audio codec\<close>

text \<open>
  The two codec helpers of the media server work on Node buffers. A buffer is a list of
  bytes; the numbers the JavaScript computes in between are modelled as \<open>int\<close>. Every
  intermediate value of both functions lies far inside the signed 32-bit range, so the
  conversion to a 32-bit integer that the bitwise operators of JavaScript perform is the
  identity here: \<open>~\<close> is \<open>NOT\<close>, \<open>&\<close> is \<open>AND\<close>, \<open>|\<close> is \<open>OR\<close>, \<open>>>\<close> is
  \<open>drop_bit\<close> (sign propagating on \<open>int\<close>) and \<open><<\<close> is \<open>push_bit\<close>, with the
  shift count taken modulo 32 as the language does.
\<close>

type_synonym byte = "8 word"

datatype js_error =
    ERR_OUT_OF_RANGE
  | SendError
  | CollaboratorError

definition shl :: "int \<Rightarrow> int \<Rightarrow> int" where
  "shl x n = push_bit (nat (n mod 32)) x"

definition shr :: "int \<Rightarrow> int \<Rightarrow> int" where
  "shr x n = drop_bit (nat (n mod 32)) x"

subsection \<open>muLawTo16BitPCM\<close>

text \<open>
  The body of the loop of \<open>muLawTo16BitPCM\<close> for one input byte: the value handed to
  \<open>out.writeInt16LE\<close>.
\<close>

definition muLaw_sample :: "byte \<Rightarrow> int" where
  "muLaw_sample b =
     (let mulaw = NOT (uint b);
          sign = (if mulaw AND 0x80 \<noteq> 0 then - 1 else 1);
          exponent = (shr mulaw 4) AND 0x07;
          mantissa = mulaw AND 0x0f;
          sample = (shl 1 (exponent + 1) * (mantissa + 16) + shl 1 exponent - 1 - 0x84) * sign;
          sample = (if sample > 32767 then 32767 else sample);
          sample = (if sample < - 32768 then - 32768 else sample)
      in sample)"

text \<open>\<open>writeInt16LE\<close> of a value in the 16-bit signed range: low byte first.\<close>

definition int16LE :: "int \<Rightarrow> byte list" where
  "int16LE v = [word_of_int (v mod 256), word_of_int ((v div 256) mod 256)]"

fun muLawTo16BitPCM :: "byte list \<Rightarrow> byte list" where
  "muLawTo16BitPCM [] = []"
| "muLawTo16BitPCM (b # bs) = int16LE (muLaw_sample b) @ muLawTo16BitPCM bs"

subsection \<open>linear16ToMuLaw\<close>

definition BIAS :: int where
  "BIAS = 0x84"

definition CLIP :: int where
  "CLIP = 32635"

text \<open>\<open>readInt16LE\<close> on the two bytes at an offset: a two's complement 16-bit value.\<close>

definition readInt16LE :: "byte \<Rightarrow> byte \<Rightarrow> int" where
  "readInt16LE lo hi =
     (let u = uint lo + 256 * uint hi in if u \<ge> 32768 then u - 65536 else u)"

text \<open>
  The segment search
  \<^verbatim>\<open>for (let exp = 0x4000; exp > 0 && (sample & exp) === 0; exp >>= 1, exponent--) { }\<close>
  as a recursion on the probe bit \<open>exp\<close>.
\<close>

function find_exponent :: "nat \<Rightarrow> int \<Rightarrow> int \<Rightarrow> int" where
  "find_exponent probe exponent sample =
     (if probe > 0 \<and> sample AND int probe = 0
      then find_exponent (probe div 2) (exponent - 1) sample
      else exponent)"
  by pat_completeness auto
termination
  by (relation "measure (\<lambda>(probe, exponent, sample). probe)") auto

declare find_exponent.simps [simp del]

text \<open>The body of the loop of \<open>linear16ToMuLaw\<close> for one sample read from the buffer.\<close>

definition linear_sample :: "int \<Rightarrow> byte" where
  "linear_sample s =
     (let sign = (if s < 0 then 0x80 else 0x00);
          sample = (if s < 0 then - s else s);
          sample = (if sample > CLIP then CLIP else sample);
          sample = sample + BIAS;
          exponent = find_exponent 0x4000 7 sample;
          mantissa = (shr sample (exponent + 3)) AND 0x0F;
          muLaw = NOT (sign OR (shl exponent 4) OR mantissa)
      in word_of_int (muLaw AND 0xFF))"

text \<open>
  The loop reads a sample at every even offset below the length. On a buffer of odd
  length the last read starts one byte before the end and \<open>readInt16LE\<close> throws.
\<close>

fun linear16ToMuLaw :: "byte list \<Rightarrow> js_error + byte list" where
  "linear16ToMuLaw [] = Inr []"
| "linear16ToMuLaw [b] = Inl ERR_OUT_OF_RANGE"
| "linear16ToMuLaw (lo # hi # rest) =
     (case linear16ToMuLaw rest of
        Inl e \<Rightarrow> Inl e
      | Inr out \<Rightarrow> Inr (linear_sample (readInt16LE lo hi) # out))"

section \<open>Outcome classifier\<close>

subsection \<open>Strings\<close>

text \<open>
  JavaScript strings are modelled as \<open>string\<close>, a character being a code unit below
  256. White space, for \<open>\s\<close> and \<open>trim\<close>, is the space, the control characters 9 to
  13 and the no-break space 160; \<open>\d\<close> is 0 to 9 and \<open>\w\<close> is the ASCII letters, the
  digits and the underscore. Case conversion is modelled on the ASCII letters, which is
  where the texts of the classifier live.
\<close>

definition is_upper :: "char \<Rightarrow> bool" where
  "is_upper c = (65 \<le> (of_char c :: nat) \<and> (of_char c :: nat) \<le> 90)"

definition is_lower :: "char \<Rightarrow> bool" where
  "is_lower c = (97 \<le> (of_char c :: nat) \<and> (of_char c :: nat) \<le> 122)"

definition is_digit :: "char \<Rightarrow> bool" where
  "is_digit c = (48 \<le> (of_char c :: nat) \<and> (of_char c :: nat) \<le> 57)"

definition is_space :: "char \<Rightarrow> bool" where
  "is_space c = ((of_char c :: nat) = 32 \<or> (9 \<le> (of_char c :: nat) \<and> (of_char c :: nat) \<le> 13)
                 \<or> (of_char c :: nat) = 160)"

definition is_word :: "char \<Rightarrow> bool" where
  "is_word c = (is_upper c \<or> is_lower c \<or> is_digit c \<or> c = CHR ''_'')"

definition lower_char :: "char \<Rightarrow> char" where
  "lower_char c = (if is_upper c then char_of ((of_char c :: nat) + 32) else c)"

definition upper_char :: "char \<Rightarrow> char" where
  "upper_char c = (if is_lower c then char_of ((of_char c :: nat) - 32) else c)"

definition toLowerCase :: "string \<Rightarrow> string" where
  "toLowerCase s = map lower_char s"

definition toUpperCase :: "string \<Rightarrow> string" where
  "toUpperCase s = map upper_char s"

definition trim :: "string \<Rightarrow> string" where
  "trim s = rev (dropWhile is_space (rev (dropWhile is_space s)))"

fun starts_with :: "string \<Rightarrow> string \<Rightarrow> bool" where
  "starts_with s [] = True"
| "starts_with [] (p # ps) = False"
| "starts_with (c # cs) (p # ps) = (c = p \<and> starts_with cs ps)"

text \<open>\<open>String.prototype.includes\<close>: the pattern starts at some position.\<close>

fun includes_str :: "string \<Rightarrow> string \<Rightarrow> bool" where
  "includes_str [] p = starts_with [] p"
| "includes_str (c # cs) p = (starts_with (c # cs) p \<or> includes_str cs p)"

subsection \<open>Regular expressions\<close>

text \<open>
  The regular expressions of the classifier use literals (compared without case, all of
  them carry the \<open>i\<close> flag), \<open>\d\<close>, \<open>\b\<close>, \<open>\s*\<close>, concatenation, alternation, the
  greedy \<open>?\<close> and capturing groups. A matcher state is the text before the position
  (reversed, so that its head is the previous character), the text after it and the
  captures made so far. \<open>mt\<close> lists the states in which a match of the expression can
  end, in the order in which a backtracking matcher tries them: the left alternative
  first, the longer repetition first. The head of the list is the match JavaScript
  reports.
\<close>

datatype rx =
    Lit char
  | Digit
  | WordB
  | StarSpace
  | Eps
  | Fail
  | Seq rx rx
  | Alt rx rx
  | Opt rx
  | Grp nat rx

type_synonym mstate = "string \<times> string \<times> (nat \<times> string) list"

fun star_space :: "string \<Rightarrow> string \<Rightarrow> (nat \<times> string) list \<Rightarrow> mstate list" where
  "star_space b [] cs = [(b, [], cs)]"
| "star_space b (x # xs) cs =
     (if is_space x then star_space (x # b) xs cs @ [(b, x # xs, cs)] else [(b, x # xs, cs)])"

definition at_boundary :: "string \<Rightarrow> string \<Rightarrow> bool" where
  "at_boundary b r =
     ((case b of [] \<Rightarrow> False | x # _ \<Rightarrow> is_word x) \<noteq> (case r of [] \<Rightarrow> False | y # _ \<Rightarrow> is_word y))"

primrec mt :: "rx \<Rightarrow> mstate \<Rightarrow> mstate list" where
  "mt (Lit c) = (\<lambda>(b, r, cs).
     (case r of [] \<Rightarrow> [] | x # xs \<Rightarrow> if upper_char x = upper_char c then [(x # b, xs, cs)] else []))"
| "mt Digit = (\<lambda>(b, r, cs).
     (case r of [] \<Rightarrow> [] | x # xs \<Rightarrow> if is_digit x then [(x # b, xs, cs)] else []))"
| "mt WordB = (\<lambda>(b, r, cs). if at_boundary b r then [(b, r, cs)] else [])"
| "mt StarSpace = (\<lambda>(b, r, cs). star_space b r cs)"
| "mt Eps = (\<lambda>s. [s])"
| "mt Fail = (\<lambda>s. [])"
| "mt (Seq p q) = (\<lambda>s. concat (map (mt q) (mt p s)))"
| "mt (Alt p q) = (\<lambda>s. mt p s @ mt q s)"
| "mt (Opt p) = (\<lambda>s. mt p s @ [s])"
| "mt (Grp n p) = (\<lambda>(b, r, cs).
     map (\<lambda>(b', r', cs'). (b', r', (n, rev (take (length b' - length b) b')) # cs')) (mt p (b, r, cs)))"

text \<open>
  \<open>String.prototype.match\<close> with a regular expression without the \<open>g\<close> flag: the
  first match from the leftmost start position that has one, every position up to the
  end of the string included. The result is the list of captures, \<open>None\<close> for
  \<open>null\<close>.
\<close>

fun search :: "rx \<Rightarrow> string \<Rightarrow> string \<Rightarrow> (nat \<times> string) list option" where
  "search p b [] = (case mt p (b, [], []) of [] \<Rightarrow> None | (b', r', cs) # _ \<Rightarrow> Some cs)"
| "search p b (x # xs) =
     (case mt p (b, x # xs, []) of [] \<Rightarrow> search p (x # b) xs | (b', r', cs) # _ \<Rightarrow> Some cs)"

definition match :: "string \<Rightarrow> rx \<Rightarrow> (nat \<times> string) list option" where
  "match s p = search p [] s"

definition group :: "(nat \<times> string) list \<Rightarrow> nat \<Rightarrow> string" where
  "group m n = (case map_of m n of None \<Rightarrow> [] | Some g \<Rightarrow> g)"

definition lits :: "string \<Rightarrow> rx" where
  "lits s = foldr (\<lambda>c r. Seq (Lit c) r) s Eps"

definition seqs :: "rx list \<Rightarrow> rx" where
  "seqs ps = foldr Seq ps Eps"

fun alts :: "string list \<Rightarrow> rx" where
  "alts [] = Fail"
| "alts [w] = lits w"
| "alts (w # ws) = Alt (lits w) (alts ws)"

subsection \<open>analyzeOutcome and extractSchedulingDetails\<close>

datatype outcome_type = scheduled | hangup | irrelevant

record outcome =
  type :: "outcome_type option"
  details :: "string option"

text \<open>
  The patterns, in the order of the source:
  \<^verbatim>\<open>/\b(monday|tuesday|wednesday|thursday|friday|saturday|sunday)\b/i\<close>,
  \<^verbatim>\<open>/\b(\d{1,2})\s*(am|pm|a\.m\.|p\.m\.)\b/i\<close>,
  \<^verbatim>\<open>/\b(morning|afternoon|evening)\b/i\<close>,
  \<^verbatim>\<open>/scheduled|booked|confirmed|set up|looking forward/i\<close>; the time pattern of
  \<open>extractSchedulingDetails\<close>,
  \<^verbatim>\<open>/\b(\d{1,2}(?::\d{2})?)\s*(am|pm|a\.m\.|p\.m\.)\b/i\<close>; and the two rejection patterns.
\<close>

definition weekday_rx :: rx where
  "weekday_rx = seqs [WordB,
     Grp 1 (alts [''monday'', ''tuesday'', ''wednesday'', ''thursday'', ''friday'', ''saturday'', ''sunday'']),
     WordB]"

definition meridiem :: rx where
  "meridiem = alts [''am'', ''pm'', ''a.m.'', ''p.m.'']"

definition hour_rx :: rx where
  "hour_rx = seqs [WordB, Grp 1 (seqs [Digit, Opt Digit]), StarSpace, Grp 2 meridiem, WordB]"

definition daypart_rx :: rx where
  "daypart_rx = seqs [WordB, Grp 1 (alts [''morning'', ''afternoon'', ''evening'']), WordB]"

definition confirm_rx :: rx where
  "confirm_rx = alts [''scheduled'', ''booked'', ''confirmed'', ''set up'', ''looking forward'']"

definition schedulePatterns :: "rx list" where
  "schedulePatterns = [weekday_rx, hour_rx, daypart_rx, confirm_rx]"

definition time_rx :: rx where
  "time_rx = seqs [WordB,
     Grp 1 (seqs [Digit, Opt Digit, Opt (seqs [Lit CHR '':'', Digit, Digit])]),
     StarSpace, Grp 2 meridiem, WordB]"

definition rejectionPatterns :: "rx list" where
  "rejectionPatterns =
     [alts [''not interested'', ''no thanks'', ''don't call'', ''remove me'', ''not a good time'', ''busy''],
      alts [''never call'', ''stop calling'', ''leave me alone'']]"

text \<open>
  \<open>capitalize d\<close> is \<^verbatim>\<open>d.charAt(0).toUpperCase() + d.slice(1).toLowerCase()\<close> and
  \<open>strip_dots\<close> is \<^verbatim>\<open>.replace(/\./g, '')\<close>.
\<close>

definition capitalize :: "string \<Rightarrow> string" where
  "capitalize d = (case d of [] \<Rightarrow> [] | c # cs \<Rightarrow> upper_char c # toLowerCase cs)"

definition strip_dots :: "string \<Rightarrow> string" where
  "strip_dots s = filter (\<lambda>c. c \<noteq> CHR ''.'') s"

definition extractSchedulingDetails :: "string \<Rightarrow> string \<Rightarrow> string" where
  "extractSchedulingDetails userTranscript aiResponse =
     (let combined = userTranscript @ '' '' @ aiResponse;
          dayMatch = match combined weekday_rx;
          timeMatch = match combined time_rx
      in case (dayMatch, timeMatch) of
           (Some d, Some t) \<Rightarrow>
             capitalize (group d 1) @ '' '' @ (group t 1 @ '' '' @ strip_dots (toUpperCase (group t 2)))
         | (Some d, None) \<Rightarrow> capitalize (group d 1)
         | (None, Some t) \<Rightarrow> group t 1 @ '' '' @ strip_dots (toUpperCase (group t 2))
         | (None, None) \<Rightarrow> ''Meeting scheduled'')"

text \<open>
  The loop over \<open>schedulePatterns\<close> stops at the first pattern that matches the reply
  or the transcript; the loop over \<open>rejectionPatterns\<close> looks at the lower-cased
  transcript only. A value is truthy when it is neither \<open>null\<close> nor the empty string.
\<close>

fun schedule_loop :: "rx list \<Rightarrow> string \<Rightarrow> string \<Rightarrow> string option" where
  "schedule_loop [] userTranscript aiResponse = None"
| "schedule_loop (pattern # rest) userTranscript aiResponse =
     (if match aiResponse pattern \<noteq> None \<or> match userTranscript pattern \<noteq> None
      then Some (extractSchedulingDetails userTranscript aiResponse)
      else schedule_loop rest userTranscript aiResponse)"

fun rejection_loop :: "rx list \<Rightarrow> string \<Rightarrow> bool" where
  "rejection_loop [] userLower = False"
| "rejection_loop (pattern # rest) userLower =
     (if match userLower pattern \<noteq> None then True else rejection_loop rest userLower)"

definition truthy :: "string option \<Rightarrow> bool" where
  "truthy v = (case v of None \<Rightarrow> False | Some s \<Rightarrow> s \<noteq> [])"

definition analyzeOutcome :: "string \<Rightarrow> string \<Rightarrow> outcome" where
  "analyzeOutcome userTranscript aiResponse =
     (let userLower = toLowerCase userTranscript;
          aiLower = toLowerCase aiResponse
      in if includes_str aiLower ''hangup''
         then (let schedulingDetails = schedule_loop schedulePatterns userTranscript aiResponse
               in if truthy schedulingDetails
                  then \<lparr>type = Some scheduled, details = schedulingDetails\<rparr>
                  else if rejection_loop rejectionPatterns userLower
                  then \<lparr>type = Some irrelevant, details = Some ''Lead declined''\<rparr>
                  else \<lparr>type = Some hangup, details = Some ''Call ended''\<rparr>)
         else \<lparr>type = None, details = None\<rparr>)"

section \<open>Sessions and outbound media\<close>

text \<open>
  The object stored in the \<open>sessions\<close> map when a media connection opens. The socket
  and the recognizer stream it also holds are handles; they are kept outside the record.
\<close>

record session =
  transcripts :: "string list"
  closed :: bool
  acceptedFirstMedia :: bool
  streamSid :: "string option"
  callSid :: "string option"
  isPlaying :: bool
  outcome :: "outcome option"

definition new_session :: session where
  "new_session =
     \<lparr>transcripts = [], closed = False, acceptedFirstMedia = False, streamSid = None,
      callSid = None, isPlaying = False, outcome = None\<rparr>"

subsection \<open>sendMedia\<close>

text \<open>
  What \<open>sendMedia\<close> sees of the socket. The loop suspends between two frames, so the
  socket can change under it: \<open>readyState ws k\<close> is the value the loop reads before its
  \<open>k\<close>-th send (counted from 0, 1 means open) and \<open>send_throws ws k\<close> tells whether
  that call of \<open>ws.send\<close> throws.
\<close>

record websocket =
  readyState :: "nat \<Rightarrow> nat"
  send_throws :: "nat \<Rightarrow> bool"

text \<open>
  An outbound \<open>media\<close> message: the \<open>streamSid\<close> member, \<open>None\<close> when the JSON object
  has none, and the bytes whose base64 text is the payload.
\<close>

record media_message =
  msg_streamSid :: "string option"
  payload :: "byte list"

definition chunkSize :: nat where
  "chunkSize = 160"

definition media_json :: "string option \<Rightarrow> byte list \<Rightarrow> media_message" where
  "media_json sid chunk =
     (if truthy sid then \<lparr>msg_streamSid = sid, payload = chunk\<rparr>
      else \<lparr>msg_streamSid = None, payload = chunk\<rparr>)"

text \<open>
  What a call of \<open>sendMedia\<close> does: the messages handed to \<open>ws.send\<close>, in order, and
  the exceptions it caught and wrote to the console. The function catches every exception
  raised inside it, so it has no exceptional exit.
\<close>

record send_report =
  sent :: "media_message list"
  logged :: "js_error list"

text \<open>
  The chunking loop. \<open>out\<close> collects the messages sent so far; a socket that is not
  open and a send that throws both leave the loop. The pause after each frame only passes
  time and is not part of the model.
\<close>

function sendMedia_loop ::
  "websocket \<Rightarrow> string option \<Rightarrow> byte list \<Rightarrow> nat \<Rightarrow> nat \<Rightarrow> media_message list \<Rightarrow> send_report"
where
  "sendMedia_loop ws sid muLaw offset sentChunks out =
     (if offset < length muLaw
      then (let chunk = take chunkSize (drop offset muLaw);
                message = media_json sid chunk
            in if readyState ws sentChunks \<noteq> 1 then \<lparr>sent = out, logged = []\<rparr>
               else if send_throws ws sentChunks then \<lparr>sent = out, logged = [SendError]\<rparr>
               else sendMedia_loop ws sid muLaw (offset + chunkSize) (sentChunks + 1) (out @ [message]))
      else \<lparr>sent = out, logged = []\<rparr>)"
  by pat_completeness auto
termination
  by (relation "measure (\<lambda>(ws, sid, muLaw, offset, sentChunks, out). length muLaw - offset)")
     (auto simp: chunkSize_def)

declare sendMedia_loop.simps [simp del]

text \<open>
  \<open>sendMedia ws pcmBuffer sess\<close>, where \<open>sess\<close> is what \<open>sessions.get(ws._sessionId)\<close>
  returns when the function starts: the stream id is read once, before the loop. An
  exception of the encoder is caught by the outer handler, with nothing sent.
\<close>

definition sendMedia ::
  "websocket option \<Rightarrow> byte list option \<Rightarrow> session option \<Rightarrow> send_report"
where
  "sendMedia ws pcmBuffer sess =
     (case (ws, pcmBuffer) of
        (None, _) \<Rightarrow> \<lparr>sent = [], logged = []\<rparr>
      | (Some w, None) \<Rightarrow> \<lparr>sent = [], logged = []\<rparr>
      | (Some w, Some pcm) \<Rightarrow>
          if length pcm = 0 then \<lparr>sent = [], logged = []\<rparr>
          else (case linear16ToMuLaw pcm of
                  Inl err \<Rightarrow> \<lparr>sent = [], logged = [err]\<rparr>
                | Inr muLaw \<Rightarrow>
                    (let sid = (case sess of None \<Rightarrow> None | Some s \<Rightarrow> streamSid s)
                     in sendMedia_loop w sid muLaw 0 0 [])))"

text \<open>A socket that stays open and whose sends succeed.\<close>

definition open_socket :: websocket where
  "open_socket = \<lparr>readyState = (\<lambda>k. 1), send_throws = (\<lambda>k. False)\<rparr>"

text \<open>The frames a buffer splits into, as a specification of the loop.\<close>

function chunks :: "nat \<Rightarrow> 'a list \<Rightarrow> 'a list list" where
  "chunks n xs = (if n = 0 \<or> xs = [] then [] else take n xs # chunks n (drop n xs))"
  by pat_completeness auto
termination
  by (relation "measure (\<lambda>(n, xs). length xs)") auto

declare chunks.simps [simp del]

section \<open>The connection handler\<close>

text \<open>
  One media connection: the handlers registered by \<open>wss.on('connection')\<close> and the
  asynchronous work they start. The event loop runs one handler at a time up to its next
  \<open>await\<close>, so a handler is a sequence of steps, one per resumption, and other events
  can happen between two of them. A suspended piece of work is a \<open>task\<close>, named after
  the call it waits for; its number is its position in the list of tasks.

  The connection creates one session object. The handlers that captured it keep writing
  to it after \<open>sessions.delete\<close>; \<open>registered\<close> tells whether \<open>sessions.get\<close> still
  finds it.
\<close>

datatype task =
    TurnAwaitAI string
  | TurnAwaitTTS
  | TurnAwaitSend
  | GreetAwaitTTS
  | GreetAwaitSend
  | StopAwaitTTS
  | StopAwaitSend
  | Finished

text \<open>
  The calls made to the collaborators, in order. \<open>SendMedia s audio\<close> is a call of
  \<open>sendMedia\<close> on the connection's socket with the buffer \<open>audio\<close>, at a moment when
  \<open>sessions.get\<close> returns \<open>s\<close>.
\<close>

datatype effect =
    GetAIResponse string
  | SynthesizeSpeech string
  | SendMedia "session option" "byte list"
  | RecognizeWrite "byte list"
  | RecognizeEnd

record server =
  leadName :: string
  sess :: session
  registered :: bool
  recognizeStream :: bool
  calls :: "string \<Rightarrow> outcome option option"
  tasks :: "task list"
  effects :: "effect list"

text \<open>
  What the environment does: a result of the recognizer (the transcript of
  \<open>data.results[0]\<close> and its \<open>isFinal\<close> flag), a message of the telephony side
  (\<open>start\<close> with the stream and call ids it carries, \<open>media\<close> with the buffer
  decoded from its base64 payload, \<open>None\<close> when the payload text is missing or empty,
  \<open>stop\<close> together with the \<open>readyState\<close> the handler reads from the socket),
  the closing of the socket, and the completion of an awaited call of task \<open>i\<close>, with
  its result or the error it throws.
\<close>

datatype event =
    SttData string bool
  | WsStart "string option" "string option"
  | WsMedia "byte list option"
  | WsStop nat
  | WsClose
  | AIReturns nat "js_error + string"
  | TTSReturns nat "js_error + byte list"
  | SendReturns nat "js_error + unit"

definition connect :: "string \<Rightarrow> bool \<Rightarrow> (string \<Rightarrow> outcome option option) \<Rightarrow> server" where
  "connect name stt cs =
     \<lparr>leadName = name, sess = new_session, registered = True, recognizeStream = stt,
      calls = cs, tasks = [], effects = []\<rparr>"

definition sessions_get :: "server \<Rightarrow> session option" where
  "sessions_get st = (if registered st then Some (sess st) else None)"

definition greeting :: "string \<Rightarrow> string" where
  "greeting name =
     ''Hi '' @ name @ '', this is Alex calling from Alti. We help companies automate their outbound calling and booking processes. I'd love to schedule a quick 15-minute call with one of our senior account managers to show you how we can help. Does later this week work for you?''"

definition fallback :: string where
  "fallback = ''I'm sorry, I didn't hear you. Can you repeat that?''"

subsection \<open>Recognizer results\<close>

text \<open>
  Without a session in the map, storing a transcript throws and the handler's outer
  \<open>catch\<close> swallows it; nothing else in the handler has an effect then. With one, a
  final transcript that is not blank is stored first; the handler then returns if the
  session is playing, and otherwise raises the flag and calls \<open>getAIResponse\<close>.
\<close>

definition on_stt_data :: "string \<Rightarrow> bool \<Rightarrow> server \<Rightarrow> server" where
  "on_stt_data transcript isFinal st =
     (if \<not> registered st then st
      else if isFinal \<and> transcript \<noteq> [] \<and> trim transcript \<noteq> []
      then (let st1 = st\<lparr>sess := (sess st)\<lparr>transcripts := transcripts (sess st) @ [trim transcript]\<rparr>\<rparr>
            in if isPlaying (sess st1) then st1
               else st1\<lparr>sess := (sess st1)\<lparr>isPlaying := True\<rparr>,
                        effects := effects st1 @ [GetAIResponse transcript],
                        tasks := tasks st1 @ [TurnAwaitAI transcript]\<rparr>)
      else st)"

subsection \<open>The conversation turn\<close>

text \<open>
  \<open>getAIResponse\<close> with the answer of the language model as a parameter: the reply
  text, or the error of a failed request. On success it returns the text and the outcome
  the classifier gives for the transcript and the text.
\<close>

definition getAIResponse :: "string \<Rightarrow> js_error + string \<Rightarrow> js_error + string \<times> outcome" where
  "getAIResponse transcript reply =
     (case reply of
        Inl err \<Rightarrow> Inl err
      | Inr aiText \<Rightarrow> Inr (aiText, analyzeOutcome transcript aiText))"

text \<open>
  \<^verbatim>\<open>sess.outcome = aiResult.outcome\<close>, and the same on the entry of the \<open>calls\<close> map
  when the session has a call id and the map has an entry for it.
\<close>

definition store_outcome :: "outcome \<Rightarrow> server \<Rightarrow> server" where
  "store_outcome oc st =
     st\<lparr>sess := (sess st)\<lparr>outcome := Some oc\<rparr>,
        calls := (case callSid (sess st) of
                    None \<Rightarrow> calls st
                  | Some c \<Rightarrow> if c \<noteq> [] \<and> calls st c \<noteq> None then (calls st)(c := Some (Some oc))
                               else calls st)\<rparr>"

text \<open>The \<open>finally\<close> block of the turn.\<close>

definition finish_turn :: "nat \<Rightarrow> server \<Rightarrow> server" where
  "finish_turn i st =
     st\<lparr>sess := (sess st)\<lparr>isPlaying := False\<rparr>, tasks := (tasks st)[i := Finished]\<rparr>"

text \<open>The \<open>catch\<close> block of the greeting: it looks the session up again.\<close>

definition greet_catch :: "nat \<Rightarrow> server \<Rightarrow> server" where
  "greet_catch i st =
     (if registered st
      then st\<lparr>sess := (sess st)\<lparr>isPlaying := False\<rparr>, tasks := (tasks st)[i := Finished]\<rparr>
      else st\<lparr>tasks := (tasks st)[i := Finished]\<rparr>)"

text \<open>The end of the \<open>stop\<close> handler: the recognizer stream is ended, the session deleted.\<close>

definition end_and_delete :: "server \<Rightarrow> server" where
  "end_and_delete st =
     st\<lparr>effects := effects st @ (if recognizeStream st then [RecognizeEnd] else []),
        registered := False\<rparr>"

definition on_ai_returns :: "nat \<Rightarrow> js_error + string \<Rightarrow> server \<Rightarrow> server" where
  "on_ai_returns i reply st =
     (if i < length (tasks st)
      then (case tasks st ! i of
              TurnAwaitAI transcript \<Rightarrow>
                (case getAIResponse transcript reply of
                   Inl err \<Rightarrow> finish_turn i st
                 | Inr (aiText, oc) \<Rightarrow>
                     (let st1 = (if type oc \<noteq> None then store_outcome oc st else st)
                      in st1\<lparr>effects := effects st1 @ [SynthesizeSpeech aiText],
                              tasks := (tasks st1)[i := TurnAwaitTTS]\<rparr>))
            | _ \<Rightarrow> st)
      else st)"

definition on_tts_returns :: "nat \<Rightarrow> js_error + byte list \<Rightarrow> server \<Rightarrow> server" where
  "on_tts_returns i res st =
     (if i < length (tasks st)
      then (case tasks st ! i of
              TurnAwaitTTS \<Rightarrow>
                (case res of
                   Inl err \<Rightarrow> finish_turn i st
                 | Inr audio \<Rightarrow>
                     st\<lparr>effects := effects st @ [SendMedia (sessions_get st) audio],
                        tasks := (tasks st)[i := TurnAwaitSend]\<rparr>)
            | GreetAwaitTTS \<Rightarrow>
                (case res of
                   Inl err \<Rightarrow> greet_catch i st
                 | Inr audio \<Rightarrow>
                     st\<lparr>effects := effects st @ [SendMedia (sessions_get st) audio],
                        tasks := (tasks st)[i := GreetAwaitSend]\<rparr>)
            | StopAwaitTTS \<Rightarrow>
                (case res of
                   Inl err \<Rightarrow> (end_and_delete st)\<lparr>tasks := (tasks st)[i := Finished]\<rparr>
                 | Inr audio \<Rightarrow>
                     st\<lparr>effects := effects st @ [SendMedia (sessions_get st) audio],
                        tasks := (tasks st)[i := StopAwaitSend]\<rparr>)
            | _ \<Rightarrow> st)
      else st)"

definition on_send_returns :: "nat \<Rightarrow> js_error + unit \<Rightarrow> server \<Rightarrow> server" where
  "on_send_returns i res st =
     (if i < length (tasks st)
      then (case tasks st ! i of
              TurnAwaitSend \<Rightarrow> finish_turn i st
            | GreetAwaitSend \<Rightarrow>
                (case res of
                   Inl err \<Rightarrow> greet_catch i st
                 | Inr u \<Rightarrow> finish_turn i st)
            | StopAwaitSend \<Rightarrow> (end_and_delete st)\<lparr>tasks := (tasks st)[i := Finished]\<rparr>
            | _ \<Rightarrow> st)
      else st)"

subsection \<open>Messages of the telephony side\<close>

definition on_start :: "string option \<Rightarrow> string option \<Rightarrow> server \<Rightarrow> server" where
  "on_start twilioStreamSid twilioCallSid st =
     (if \<not> registered st then st
      else (let s1 = (if truthy twilioStreamSid then (sess st)\<lparr>streamSid := twilioStreamSid\<rparr>
                      else sess st);
                s2 = (if truthy twilioCallSid then s1\<lparr>callSid := twilioCallSid\<rparr> else s1)
            in st\<lparr>sess := s2\<lparr>acceptedFirstMedia := True, isPlaying := True\<rparr>,
                  effects := effects st @ [SynthesizeSpeech (greeting (leadName st))],
                  tasks := tasks st @ [GreetAwaitTTS]\<rparr>))"

definition on_media :: "byte list option \<Rightarrow> server \<Rightarrow> server" where
  "on_media b64 st =
     (case b64 of
        None \<Rightarrow> st
      | Some muLawBuffer \<Rightarrow>
          if recognizeStream st
          then st\<lparr>effects := effects st @ [RecognizeWrite (muLawTo16BitPCM muLawBuffer)]\<rparr>
          else st)"

definition on_stop :: "nat \<Rightarrow> server \<Rightarrow> server" where
  "on_stop ready st =
     (if \<not> registered st then st
      else (let hadTranscripts = (length (transcripts (sess st)) > 0)
            in if \<not> hadTranscripts
               then (if ready \<noteq> 1 then end_and_delete st
                     else st\<lparr>effects := effects st @ [SynthesizeSpeech fallback],
                             tasks := tasks st @ [StopAwaitTTS]\<rparr>)
               else end_and_delete st))"

definition on_close :: "server \<Rightarrow> server" where
  "on_close st =
     (if \<not> registered st then st
      else st\<lparr>effects := effects st @ (if recognizeStream st then [RecognizeEnd] else []),
              sess := (sess st)\<lparr>closed := True\<rparr>,
              registered := False\<rparr>)"

subsection \<open>Steps and runs\<close>

fun step :: "event \<Rightarrow> server \<Rightarrow> server" where
  "step (SttData transcript isFinal) st = on_stt_data transcript isFinal st"
| "step (WsStart sid cid) st = on_start sid cid st"
| "step (WsMedia b) st = on_media b st"
| "step (WsStop ready) st = on_stop ready st"
| "step WsClose st = on_close st"
| "step (AIReturns i r) st = on_ai_returns i r st"
| "step (TTSReturns i r) st = on_tts_returns i r st"
| "step (SendReturns i r) st = on_send_returns i r st"

definition run :: "event list \<Rightarrow> server \<Rightarrow> server" where
  "run evs st = foldl (\<lambda>s ev. step ev s) st evs"

text \<open>
  Readings of the list of calls: the buffers handed to \<open>sendMedia\<close>, in order, the
  transcripts handed to \<open>getAIResponse\<close>, and the messages that the calls of
  \<open>sendMedia\<close> put on a socket \<open>ws\<close>.
\<close>

fun playback_buffers :: "effect list \<Rightarrow> byte list list" where
  "playback_buffers [] = []"
| "playback_buffers (SendMedia s audio # es) = audio # playback_buffers es"
| "playback_buffers (e # es) = playback_buffers es"


fun frames_of :: "websocket \<Rightarrow> effect \<Rightarrow> media_message list" where
  "frames_of ws (SendMedia s audio) = sent (sendMedia (Some ws) (Some audio) s)"
| "frames_of ws e = []"

definition frames_sent :: "websocket \<Rightarrow> effect list \<Rightarrow> media_message list" where
  "frames_sent ws es = concat (map (frames_of ws) es)"

fun is_turn :: "task \<Rightarrow> bool" where
  "is_turn (TurnAwaitAI t) = True"
| "is_turn TurnAwaitTTS = True"
| "is_turn TurnAwaitSend = True"
| "is_turn k = False"

fun is_greeting :: "task \<Rightarrow> bool" where
  "is_greeting GreetAwaitTTS = True"
| "is_greeting GreetAwaitSend = True"
| "is_greeting k = False"



text \<open>A \<open>calls\<close> map without entries.\<close>

definition no_calls :: "string \<Rightarrow> outcome option option" where
  "no_calls = (\<lambda>c. None)"

text \<open>
  The tasks that play under the flag, turns and greetings, and the number of them that
  have not finished. The fallback of the \<open>stop\<close> handler does not touch the flag.
\<close>

definition in_flight :: "server \<Rightarrow> nat" where
  "in_flight st = length (filter (\<lambda>k. is_turn k \<or> is_greeting k) (tasks st))"

definition exclusive :: "server \<Rightarrow> bool" where
  "exclusive st = (in_flight st = 0 \<or> (in_flight st = 1 \<and> isPlaying (sess st)))"

fun is_start :: "event \<Rightarrow> bool" where
  "is_start (WsStart sid cid) = True"
| "is_start ev = False"

subsection \<open>Alphabets\<close>

text \<open>The characters over which the character classes are tabulated for evaluation.\<close>

definition letters_lower :: string where
  "letters_lower = ''abcdefghijklmnopqrstuvwxyz''"

definition letters_upper :: string where
  "letters_upper = ''ABCDEFGHIJKLMNOPQRSTUVWXYZ''"

definition digits :: string where
  "digits = ''0123456789''"

definition punct :: string where
  "punct = '',.:'!?-''"

section \<open>Properties of the codec\<close>

lemma find_exponent_silence: "find_exponent 0x4000 7 132 = 0"
  by (simp add: find_exponent.simps)

lemma find_exponent_loudest: "find_exponent 0x4000 7 32767 = 7"
  by (simp add: find_exponent.simps)

lemma linear_sample_zero: "linear_sample 0 = 0xFF"
  by (simp add: linear_sample_def BIAS_def CLIP_def shl_def shr_def find_exponent_silence)

lemma muLaw_sample_FF: "muLaw_sample 0xFF = - 100"
  by (simp add: muLaw_sample_def shl_def shr_def)

lemma linear_sample_max: "linear_sample 32767 = 0x80"
  by (simp add: linear_sample_def BIAS_def CLIP_def shl_def shr_def find_exponent_loudest)

lemma muLaw_sample_80: "muLaw_sample 0x80 = 7931"
  by (simp add: muLaw_sample_def shl_def shr_def)

lemma muLaw_sample_range: "- 32768 \<le> muLaw_sample b \<and> muLaw_sample b \<le> 32767"
  by (simp add: muLaw_sample_def Let_def)

text \<open>
  C2. The round trip through the encoder and the decoder is claimed to stay within one
  quantization step of the sample. The encoder keeps four mantissa bits above bit
  \<open>exponent + 3\<close>, so a step is \<open>2 ^ (exponent + 3)\<close>: 8 in the lowest segment and 1024
  in the highest. The decoder does invert the byte, take sign, exponent and mantissa
  apart and clamp to the 16-bit range, but the value it rebuilds is not the one of the
  companding law: silence (sample 0, step 8) comes back as -100, and the largest sample
  32767 comes back as 7931, further away than the largest step there is.
\<close>

theorem codec_round_trip_off:
  "muLaw_sample (linear_sample 0) = - 100
   \<and> \<bar>muLaw_sample (linear_sample 0) - 0\<bar> > 8
   \<and> muLaw_sample (linear_sample 32767) = 7931
   \<and> \<bar>muLaw_sample (linear_sample 32767) - 32767\<bar> > 1024"
  by (simp add: linear_sample_zero muLaw_sample_FF linear_sample_max muLaw_sample_80)

section \<open>Properties of the classifier\<close>

subsection \<open>Character tables\<close>

lemmas alphabets = letters_lower_def letters_upper_def digits_def punct_def

lemma upper_char_table:
  "map upper_char (letters_lower @ letters_upper @ digits @ punct @ '' _'')
     = letters_upper @ letters_upper @ digits @ punct @ '' _''"
  unfolding alphabets by code_simp

lemma lower_char_table:
  "map lower_char (letters_lower @ letters_upper @ digits @ punct @ '' _'')
     = letters_lower @ letters_lower @ digits @ punct @ '' _''"
  unfolding alphabets by code_simp

lemma is_word_yes: "list_all is_word (letters_lower @ letters_upper @ digits @ ''_'')"
  unfolding alphabets by code_simp

lemma is_word_no: "list_all (\<lambda>c. \<not> is_word c) (punct @ '' '')"
  unfolding alphabets by code_simp

lemma is_digit_yes: "list_all is_digit digits"
  unfolding alphabets by code_simp

lemma is_digit_no: "list_all (\<lambda>c. \<not> is_digit c) (letters_lower @ letters_upper @ punct @ '' _'')"
  unfolding alphabets by code_simp

lemma is_space_yes: "is_space CHR '' ''"
  by code_simp

lemma is_space_no: "list_all (\<lambda>c. \<not> is_space c) (letters_lower @ letters_upper @ digits @ punct @ ''_'')"
  unfolding alphabets by code_simp

lemmas char_tabs =
  upper_char_table [unfolded alphabets, simplified]
  lower_char_table [unfolded alphabets, simplified]
  is_word_yes [unfolded alphabets, simplified]
  is_word_no [unfolded alphabets, simplified]
  is_digit_yes [unfolded alphabets, simplified]
  is_digit_no [unfolded alphabets, simplified]
  is_space_yes
  is_space_no [unfolded alphabets, simplified]

lemmas rx_eval = match_def seqs_def lits_def at_boundary_def group_def
lemmas rx_defs = weekday_rx_def hour_rx_def daypart_rx_def confirm_rx_def time_rx_def meridiem_def
lemmas classify_eval =
  analyzeOutcome_def extractSchedulingDetails_def schedulePatterns_def rejectionPatterns_def
  truthy_def toLowerCase_def toUpperCase_def capitalize_def strip_dots_def

subsection \<open>The four conversations\<close>

lemma classify_tuesday:
  "analyzeOutcome ''Tuesday at 2pm works'' ''Great, see you then. HANGUP''
     = \<lparr>type = Some scheduled, details = Some ''Tuesday 2 PM''\<rparr>"
  by (simp add: classify_eval rx_eval rx_defs char_tabs)

lemma classify_declined:
  "analyzeOutcome ''I'm not interested, stop calling'' ''No problem, have a great day. HANGUP''
     = \<lparr>type = Some irrelevant, details = Some ''Lead declined''\<rparr>"
  by (simp add: classify_eval rx_eval rx_defs char_tabs)

lemma classify_bye:
  "analyzeOutcome ''okay bye'' ''Understood. HANGUP''
     = \<lparr>type = Some hangup, details = Some ''Call ended''\<rparr>"
  by (simp add: classify_eval rx_eval rx_defs char_tabs)

lemma classify_later:
  "analyzeOutcome ''maybe later'' ''Sure, I'll follow up.'' = \<lparr>type = None, details = None\<rparr>"
  by (simp add: classify_eval rx_eval rx_defs char_tabs)

text \<open>
  C4. On the four literal conversations of the specification the classifier returns
  \<open>scheduled\<close> with the detail \<open>Tuesday 2 PM\<close>, \<open>irrelevant\<close>, \<open>hangup\<close>, and no
  outcome (a \<open>null\<close> type) for the reply without the termination keyword.
\<close>

theorem classifier_scenarios:
  "analyzeOutcome ''Tuesday at 2pm works'' ''Great, see you then. HANGUP''
     = \<lparr>type = Some scheduled, details = Some ''Tuesday 2 PM''\<rparr>
   \<and> type (analyzeOutcome ''I'm not interested, stop calling'' ''No problem, have a great day. HANGUP'')
     = Some irrelevant
   \<and> type (analyzeOutcome ''okay bye'' ''Understood. HANGUP'') = Some hangup
   \<and> type (analyzeOutcome ''maybe later'' ''Sure, I'll follow up.'') = None"
  by (simp add: classify_tuesday classify_declined classify_bye classify_later)

section \<open>Properties of the frame pacer\<close>

subsection \<open>Splitting a buffer into frames\<close>

lemma chunks_Nil: "chunks n [] = []"
  by (simp add: chunks.simps)

lemma chunks_step: "0 < n \<Longrightarrow> xs \<noteq> [] \<Longrightarrow> chunks n xs = take n xs # chunks n (drop n xs)"
  by (subst chunks.simps) simp

lemma concat_chunks: "0 < n \<Longrightarrow> concat (chunks n xs) = xs"
proof (induction n xs rule: chunks.induct)
  case (1 n xs)
  show ?case
  proof (cases "xs = []")
    case True
    then show ?thesis by (simp add: chunks_Nil)
  next
    case False
    with 1 show ?thesis by (simp add: chunks_step)
  qed
qed

lemma length_chunks: "0 < n \<Longrightarrow> length (chunks n xs) = (length xs + n - 1) div n"
proof (induction n xs rule: chunks.induct)
  case (1 n xs)
  show ?case
  proof (cases "xs = []")
    case True
    with 1(2) show ?thesis by (simp add: chunks_Nil)
  next
    case False
    with 1 have step: "length (chunks n xs) = Suc ((length xs - n + n - 1) div n)"
      by (simp add: chunks_step)
    show ?thesis
    proof (cases "n \<le> length xs")
      case True
      then have "length xs + n - 1 = (length xs - 1) + 1 * n" using 1(2) by simp
      then have "(length xs + n - 1) div n = Suc ((length xs - 1) div n)"
        using 1(2) by (simp only: div_mult_self1)
      with True step show ?thesis by simp
    next
      case False
      define l where "l = length xs"
      from \<open>xs \<noteq> []\<close> have pos: "0 < l" by (simp add: l_def)
      from False have less: "l < n" by (simp add: l_def)
      from pos less have "(l + n - 1) div n = 1"
        by (intro div_nat_eqI) simp_all
      moreover from less have "(l - n + n - 1) div n = 0" by simp
      ultimately show ?thesis using step by (simp add: l_def)
    qed
  qed
qed

lemma chunks_full:
  "0 < n \<Longrightarrow> Suc i < length (chunks n xs) \<Longrightarrow> length (chunks n xs ! i) = n"
proof (induction n xs arbitrary: i rule: chunks.induct)
  case (1 n xs)
  from 1(3) have ne: "xs \<noteq> []" by (auto simp: chunks_Nil)
  with 1(2) have unfold: "chunks n xs = take n xs # chunks n (drop n xs)"
    by (rule chunks_step)
  from 1(3) unfold have rest: "chunks n (drop n xs) \<noteq> []" by auto
  then have "drop n xs \<noteq> []" by (auto simp: chunks_Nil)
  then have long: "n < length xs" by simp
  show ?case
  proof (cases i)
    case 0
    with unfold long show ?thesis by simp
  next
    case (Suc j)
    with 1(3) unfold have "Suc j < length (chunks n (drop n xs))" by simp
    with 1(1) [of j] 1(2) ne have "length (chunks n (drop n xs) ! j) = n" by simp
    with Suc unfold show ?thesis by simp
  qed
qed

lemma chunks_nonempty: "0 < n \<Longrightarrow> c \<in> set (chunks n xs) \<Longrightarrow> c \<noteq> [] \<and> length c \<le> n"
proof (induction n xs rule: chunks.induct)
  case (1 n xs)
  show ?case
  proof (cases "xs = []")
    case True
    with 1(3) show ?thesis by (simp add: chunks_Nil)
  next
    case False
    with 1(2) have "chunks n xs = take n xs # chunks n (drop n xs)" by (rule chunks_step)
    with 1 False show ?thesis by auto
  qed
qed

lemma ceiling_frames: "nat \<lceil>real m / 160\<rceil> = (m + 160 - 1) div 160"
proof -
  have "\<lceil>real m / 160\<rceil> = \<lceil>of_int (int m) / (of_int 160 :: real)\<rceil>" by simp
  also have "\<dots> = - (- int m div 160)" by (rule ceiling_divide_eq_div)
  also have "\<dots> = int ((m + 159) div 160)" by linarith
  finally show ?thesis by simp
qed

subsection \<open>The loop on an open socket\<close>

lemma sendMedia_loop_open:
  "(\<And>k. readyState ws k = 1) \<Longrightarrow> (\<And>k. \<not> send_throws ws k) \<Longrightarrow>
   sendMedia_loop ws sid muLaw offset sentChunks out
     = \<lparr>sent = out @ map (media_json sid) (chunks chunkSize (drop offset muLaw)), logged = []\<rparr>"
proof (induction ws sid muLaw offset sentChunks out rule: sendMedia_loop.induct)
  case (1 ws sid muLaw offset sentChunks out)
  note ready = 1(2) and sends = 1(3)
  show ?case
  proof (cases "offset < length muLaw")
    case True
    then have "drop offset muLaw \<noteq> []" by simp
    then have split: "chunks chunkSize (drop offset muLaw)
                 = take chunkSize (drop offset muLaw) # chunks chunkSize (drop (offset + chunkSize) muLaw)"
      by (simp add: chunks_step chunkSize_def add.commute)
    have "sendMedia_loop ws sid muLaw offset sentChunks out
            = sendMedia_loop ws sid muLaw (offset + chunkSize) (sentChunks + 1)
                (out @ [media_json sid (take chunkSize (drop offset muLaw))])"
      using True ready sends by (subst sendMedia_loop.simps) simp
    also have "\<dots> = \<lparr>sent = (out @ [media_json sid (take chunkSize (drop offset muLaw))])
                         @ map (media_json sid) (chunks chunkSize (drop (offset + chunkSize) muLaw)),
                       logged = []\<rparr>"
      using True ready sends by (intro 1(1)) simp_all
    finally show ?thesis by (simp add: split)
  next
    case False
    then show ?thesis by (subst sendMedia_loop.simps) (simp add: chunks_Nil)
  qed
qed

lemma payload_media_json: "payload (media_json sid c) = c"
  by (simp add: media_json_def)

lemma payload_comp_media_json: "payload \<circ> media_json sid = (\<lambda>c. c)"
  by (simp add: fun_eq_iff payload_media_json)

lemma msg_streamSid_media_json:
  "msg_streamSid (media_json sid c) = (if truthy sid then sid else None)"
  by (simp add: media_json_def)

lemma open_socket_ready: "readyState open_socket k = 1"
  by (simp add: open_socket_def)

lemma open_socket_sends: "\<not> send_throws open_socket k"
  by (simp add: open_socket_def)

subsection \<open>The loop on any socket\<close>

lemma sendMedia_loop_stream_id:
  "m \<in> set (sent (sendMedia_loop ws sid muLaw offset sentChunks out)) \<Longrightarrow>
   m \<in> set out \<or> msg_streamSid m = (if truthy sid then sid else None)"
proof (induction ws sid muLaw offset sentChunks out rule: sendMedia_loop.induct)
  case (1 ws sid muLaw offset sentChunks out)
  let ?msg = "media_json sid (take chunkSize (drop offset muLaw))"
  show ?case
  proof (cases "offset < length muLaw \<and> readyState ws sentChunks = 1 \<and> \<not> send_throws ws sentChunks")
    case True
    then have "sendMedia_loop ws sid muLaw offset sentChunks out
                 = sendMedia_loop ws sid muLaw (offset + chunkSize) (sentChunks + 1) (out @ [?msg])"
      by (subst sendMedia_loop.simps) simp
    with 1(2) have "m \<in> set (sent (sendMedia_loop ws sid muLaw (offset + chunkSize) (sentChunks + 1) (out @ [?msg])))"
      by simp
    with True have "m \<in> set (out @ [?msg]) \<or> msg_streamSid m = (if truthy sid then sid else None)"
      by (intro 1(1)) simp_all
    then show ?thesis by (auto simp: msg_streamSid_media_json)
  next
    case False
    then have "sent (sendMedia_loop ws sid muLaw offset sentChunks out) = out"
      by (subst sendMedia_loop.simps) (auto simp: Let_def)
    with 1(2) show ?thesis by simp
  qed
qed

lemma sendMedia_loop_payloads:
  "map payload out = map payload out' \<Longrightarrow>
   map payload (sent (sendMedia_loop ws sid muLaw offset sentChunks out))
     = map payload (sent (sendMedia_loop ws sid' muLaw offset sentChunks out'))"
proof (induction ws sid muLaw offset sentChunks out arbitrary: out' rule: sendMedia_loop.induct)
  case (1 ws sid muLaw offset sentChunks out)
  let ?c = "take chunkSize (drop offset muLaw)"
  show ?case
  proof (cases "offset < length muLaw \<and> readyState ws sentChunks = 1 \<and> \<not> send_throws ws sentChunks")
    case True
    then have l: "sendMedia_loop ws sid muLaw offset sentChunks out
                 = sendMedia_loop ws sid muLaw (offset + chunkSize) (sentChunks + 1) (out @ [media_json sid ?c])"
      by (subst sendMedia_loop.simps) simp
    from True have r: "sendMedia_loop ws sid' muLaw offset sentChunks out'
                 = sendMedia_loop ws sid' muLaw (offset + chunkSize) (sentChunks + 1) (out' @ [media_json sid' ?c])"
      by (subst sendMedia_loop.simps) simp
    from 1(2) have "map payload (out @ [media_json sid ?c]) = map payload (out' @ [media_json sid' ?c])"
      by (simp add: payload_media_json)
    with True have "map payload (sent (sendMedia_loop ws sid muLaw (offset + chunkSize) (sentChunks + 1) (out @ [media_json sid ?c])))
        = map payload (sent (sendMedia_loop ws sid' muLaw (offset + chunkSize) (sentChunks + 1) (out' @ [media_json sid' ?c])))"
      by (intro 1(1)) simp_all
    with l r show ?thesis by simp
  next
    case False
    then have "sent (sendMedia_loop ws sid muLaw offset sentChunks out) = out"
      by (subst sendMedia_loop.simps) (auto simp: Let_def)
    moreover from False have "sent (sendMedia_loop ws sid' muLaw offset sentChunks out') = out'"
      by (subst sendMedia_loop.simps) (auto simp: Let_def)
    ultimately show ?thesis using 1(2) by simp
  qed
qed

subsection \<open>Encoding silence\<close>

lemma readInt16LE_zero: "readInt16LE 0 0 = 0"
  by (simp add: readInt16LE_def)

lemma encode_silence: "linear16ToMuLaw (replicate (2 * n) 0) = Inr (replicate n 0xFF)"
  by (induction n) (simp_all add: readInt16LE_zero linear_sample_zero)

lemma encode_two_zero_bytes: "linear16ToMuLaw [0, 0] = Inr [0xFF]"
  by (simp add: readInt16LE_zero linear_sample_zero)

lemma linear16ToMuLaw_length:
  "linear16ToMuLaw pcm = Inr muLaw \<Longrightarrow> length pcm = 2 * length muLaw"
  by (induction pcm arbitrary: muLaw rule: linear16ToMuLaw.induct) (auto split: sum.splits)

lemma linear16ToMuLaw_even:
  "even (length pcm) \<Longrightarrow> \<exists>muLaw. linear16ToMuLaw pcm = Inr muLaw"
  by (induction pcm rule: linear16ToMuLaw.induct) (auto split: sum.splits)

subsection \<open>Claims about sendMedia\<close>

lemma sendMedia_open:
  assumes "linear16ToMuLaw pcm = Inr muLaw"
    and "\<And>k. readyState ws k = 1" and "\<And>k. \<not> send_throws ws k"
  shows "sent (sendMedia (Some ws) (Some pcm) got)
           = map (media_json (case got of None \<Rightarrow> None | Some s \<Rightarrow> streamSid s)) (chunks chunkSize muLaw)"
proof (cases "pcm = []")
  case True
  with assms(1) have "muLaw = []" by simp
  with True show ?thesis by (simp add: sendMedia_def chunks_Nil)
next
  case False
  with assms show ?thesis
    by (simp add: sendMedia_def sendMedia_loop_open [of ws])
qed

text \<open>
  C8. On a socket that stays open and accepts every send, the pacer sends as many frames
  as the ceiling of the length of the encoding divided by 160. Every frame but the last
  carries exactly 160 bytes, and the frames in order are the encoding. The encoding exists
  for every buffer that holds whole 16-bit samples.
\<close>

theorem frame_sizing:
  assumes "linear16ToMuLaw pcm = Inr muLaw"
    and "\<And>k. readyState ws k = 1" and "\<And>k. \<not> send_throws ws k"
  shows "length (sent (sendMedia (Some ws) (Some pcm) got)) = nat \<lceil>real (length muLaw) / 160\<rceil>
         \<and> (\<forall>i. Suc i < length (sent (sendMedia (Some ws) (Some pcm) got)) \<longrightarrow>
                length (payload (sent (sendMedia (Some ws) (Some pcm) got) ! i)) = 160)
         \<and> concat (map payload (sent (sendMedia (Some ws) (Some pcm) got))) = muLaw"
proof -
  let ?sid = "case got of None \<Rightarrow> None | Some s \<Rightarrow> streamSid s"
  have eq: "sent (sendMedia (Some ws) (Some pcm) got) = map (media_json ?sid) (chunks 160 muLaw)"
    using sendMedia_open [OF assms] by (simp add: chunkSize_def)
  have "length (chunks 160 muLaw) = nat \<lceil>real (length muLaw) / 160\<rceil>"
    by (simp add: length_chunks ceiling_frames)
  moreover have "\<forall>i. Suc i < length (chunks 160 muLaw) \<longrightarrow> length (chunks 160 muLaw ! i) = 160"
    by (simp add: chunks_full)
  moreover have "concat (chunks 160 muLaw) = muLaw"
    by (simp add: concat_chunks)
  ultimately show ?thesis
    unfolding eq by (simp add: payload_comp_media_json payload_media_json)
qed

theorem frame_sizing_witness:
  "length (sent (sendMedia (Some open_socket) (Some (replicate 322 0)) None)) = 2
   \<and> length (payload (sent (sendMedia (Some open_socket) (Some (replicate 322 0)) None) ! 0)) = 160"
proof -
  have enc: "linear16ToMuLaw (replicate 322 0) = Inr (replicate 161 0xFF)"
    using encode_silence [of 161] by simp
  note fs = frame_sizing [OF enc open_socket_ready open_socket_sends, of None]
  from fs have len: "length (sent (sendMedia (Some open_socket) (Some (replicate 322 0)) None)) = 2"
    by simp
  from fs have "Suc 0 < length (sent (sendMedia (Some open_socket) (Some (replicate 322 0)) None)) \<longrightarrow>
      length (payload (sent (sendMedia (Some open_socket) (Some (replicate 322 0)) None) ! 0)) = 160"
    by blast
  with len show ?thesis by simp
qed

text \<open>
  C3. The claim has two halves: a session without a stream id sends no frame, and a
  session with one tags every frame with it. The pacer reads the stream id once, when it
  starts, from the session that the table holds at that moment. A frame it sends carries
  that id when there is one. Without one, and also without a session in the table, the
  loop runs all the same and its messages have no \<open>streamSid\<close> member: the bytes sent
  do not depend on the session at all.
\<close>

theorem frames_carry_stream_id_read_at_start:
  "(\<forall>m \<in> set (sent (sendMedia ws pcm got)).
      msg_streamSid m = (case got of None \<Rightarrow> None
                         | Some s \<Rightarrow> if truthy (streamSid s) then streamSid s else None))
   \<and> map payload (sent (sendMedia ws pcm got)) = map payload (sent (sendMedia ws pcm None))"
proof -
  have "msg_streamSid m = (case got of None \<Rightarrow> None
                           | Some s \<Rightarrow> if truthy (streamSid s) then streamSid s else None)"
    if "m \<in> set (sent (sendMedia ws pcm got))" for m
  proof -
    from that obtain w b muLaw where
      "m \<in> set (sent (sendMedia_loop w (case got of None \<Rightarrow> None | Some s \<Rightarrow> streamSid s) muLaw 0 0 []))"
      by (auto simp: sendMedia_def split: option.splits if_splits sum.splits)
    from sendMedia_loop_stream_id [OF this] show ?thesis
      by (auto simp: truthy_def split: option.splits)
  qed
  moreover have "map payload (sent (sendMedia ws pcm got)) = map payload (sent (sendMedia ws pcm None))"
    by (auto simp: sendMedia_def sendMedia_loop_payloads [of "[]" "[]"] split: option.splits sum.splits)
  ultimately show ?thesis by blast
qed

theorem frames_carry_stream_id_read_at_start_witness:
  "msg_streamSid (hd (sent (sendMedia (Some open_socket) (Some [0, 0])
       (Some (new_session\<lparr>streamSid := Some ''MZ1''\<rparr>))))) = Some ''MZ1''"
proof -
  let ?s = "new_session\<lparr>streamSid := Some ''MZ1''\<rparr>"
  have "sent (sendMedia (Some open_socket) (Some [0, 0]) (Some ?s)) = [media_json (Some ''MZ1'') [0xFF]]"
    using sendMedia_open [OF encode_two_zero_bytes open_socket_ready open_socket_sends, of "Some ?s"]
    by (simp add: chunkSize_def chunks_step chunks_Nil new_session_def)
  then have "hd (sent (sendMedia (Some open_socket) (Some [0, 0]) (Some ?s)))
               \<in> set (sent (sendMedia (Some open_socket) (Some [0, 0]) (Some ?s)))"
    by simp
  with frames_carry_stream_id_read_at_start [of "Some open_socket" "Some [0, 0]" "Some ?s"]
  show ?thesis by (simp add: truthy_def new_session_def)
qed

theorem frame_sent_without_stream_id:
  "streamSid new_session = None
   \<and> sent (sendMedia (Some open_socket) (Some [0, 0]) (Some new_session))
       = [\<lparr>msg_streamSid = None, payload = [0xFF]\<rparr>]"
  using sendMedia_open [OF encode_two_zero_bytes open_socket_ready open_socket_sends, of "Some new_session"]
  by (simp add: chunkSize_def chunks_step chunks_Nil new_session_def media_json_def truthy_def)

text \<open>
  C10. Called without a socket, without a buffer or with an empty buffer, \<open>sendMedia\<close>
  returns at once: it sends no frame, and no exception is raised or even caught.
\<close>

theorem sendMedia_nothing_to_send:
  "ws = None \<or> pcm = None \<or> pcm = Some [] \<Longrightarrow> sendMedia ws pcm got = \<lparr>sent = [], logged = []\<rparr>"
  by (auto simp: sendMedia_def split: option.splits)

theorem sendMedia_nothing_to_send_witness:
  "sendMedia None (Some [0, 0]) (Some new_session) = \<lparr>sent = [], logged = []\<rparr>
   \<and> sendMedia (Some open_socket) None (Some new_session) = \<lparr>sent = [], logged = []\<rparr>
   \<and> sendMedia (Some open_socket) (Some []) (Some new_session) = \<lparr>sent = [], logged = []\<rparr>"
  using sendMedia_nothing_to_send [of None "Some [0, 0]" "Some new_session"]
    sendMedia_nothing_to_send [of "Some open_socket" None "Some new_session"]
    sendMedia_nothing_to_send [of "Some open_socket" "Some []" "Some new_session"]
  by simp

section \<open>Properties of the connection handler\<close>

lemmas handler_defs =
  on_stt_data_def on_ai_returns_def on_tts_returns_def on_send_returns_def on_start_def
  on_media_def on_stop_def on_close_def finish_turn_def greet_catch_def end_and_delete_def
  store_outcome_def getAIResponse_def sessions_get_def

lemma trim_Nil: "trim [] = []"
  by (simp add: trim_def)

lemma run_Nil: "run [] st = st"
  by (simp add: run_def)

lemma run_Cons: "run (ev # evs) st = run evs (step ev st)"
  by (simp add: run_def)

lemma playback_buffers_append:
  "playback_buffers (es @ fs) = playback_buffers es @ playback_buffers fs"
  by (induction es rule: playback_buffers.induct) simp_all


lemma frames_sent_append: "frames_sent ws (es @ fs) = frames_sent ws es @ frames_sent ws fs"
  by (simp add: frames_sent_def)

lemma frames_sent_Nil: "frames_sent ws [] = []"
  by (simp add: frames_sent_def)

lemma frames_sent_Cons: "frames_sent ws (e # es) = frames_of ws e @ frames_sent ws es"
  by (simp add: frames_sent_def)

lemma frames_of_playback:
  assumes "linear16ToMuLaw audio = Inr muLaw"
    and "\<And>k. readyState ws k = 1" and "\<And>k. \<not> send_throws ws k"
  shows "frames_of ws (SendMedia s audio)
           = map (media_json (case s of None \<Rightarrow> None | Some x \<Rightarrow> streamSid x)) (chunks chunkSize muLaw)"
  using sendMedia_open [OF assms, of s] by simp


subsection \<open>Steps of a turn\<close>

lemma trim_nonblank: "trim t \<noteq> [] \<Longrightarrow> t \<noteq> []"
  by (auto simp: trim_Nil)

lemma stt_final_idle:
  assumes "registered st" and "\<not> isPlaying (sess st)" and "trim t \<noteq> []"
  shows "on_stt_data t True st =
           st\<lparr>sess := (sess st)\<lparr>transcripts := transcripts (sess st) @ [trim t], isPlaying := True\<rparr>,
              effects := effects st @ [GetAIResponse t],
              tasks := tasks st @ [TurnAwaitAI t]\<rparr>"
  using assms trim_nonblank [OF assms(3)] by (simp add: on_stt_data_def Let_def)


lemma ai_returns_text:
  assumes "i < length (tasks st)" and "tasks st ! i = TurnAwaitAI t"
  shows "outcome (sess (on_ai_returns i (Inr reply) st))
           = (if type (analyzeOutcome t reply) = None then outcome (sess st)
              else Some (analyzeOutcome t reply))"
    and "isPlaying (sess (on_ai_returns i (Inr reply) st)) = isPlaying (sess st)"
    and "transcripts (sess (on_ai_returns i (Inr reply) st)) = transcripts (sess st)"
    and "registered (on_ai_returns i (Inr reply) st) = registered st"
    and "effects (on_ai_returns i (Inr reply) st) = effects st @ [SynthesizeSpeech reply]"
    and "tasks (on_ai_returns i (Inr reply) st) = (tasks st)[i := TurnAwaitTTS]"
  using assms by (simp_all add: on_ai_returns_def getAIResponse_def store_outcome_def Let_def)



subsection \<open>A second utterance during a turn\<close>





lemma trim_hello: "trim ''hello'' = ''hello''"
  by (simp add: trim_def char_tabs)


lemma connect_fields:
  "registered (connect n r c)" "\<not> isPlaying (sess (connect n r c))"
  "tasks (connect n r c) = []" "effects (connect n r c) = []"
  "transcripts (sess (connect n r c)) = []" "outcome (sess (connect n r c)) = None"
  by (simp_all add: connect_def new_session_def)

subsection \<open>One turn at a time\<close>

lemma count_update:
  "i < length xs \<Longrightarrow>
   length (filter P (xs[i := y])) + (if P (xs ! i) then 1 else 0)
     = length (filter P xs) + (if P y then 1 else 0)"
proof (induction xs arbitrary: i)
  case Nil
  then show ?case by simp
next
  case (Cons x xs)
  show ?case
  proof (cases i)
    case 0
    then show ?thesis by simp
  next
    case (Suc j)
    with Cons.prems have "j < length xs" by simp
    from Cons.IH [OF this] Suc show ?thesis by simp
  qed
qed

lemma in_flight_advance:
  assumes "i < length (tasks st)"
    and "(is_turn (tasks st ! i) \<or> is_greeting (tasks st ! i)) = (is_turn k \<or> is_greeting k)"
  shows "length (filter (\<lambda>k. is_turn k \<or> is_greeting k) ((tasks st)[i := k])) = in_flight st"
  using count_update [OF assms(1), of "\<lambda>k. is_turn k \<or> is_greeting k" k] assms(2)
  by (simp add: in_flight_def split: if_splits)

lemma in_flight_finish:
  assumes "i < length (tasks st)" and "is_turn (tasks st ! i) \<or> is_greeting (tasks st ! i)"
  shows "Suc (length (filter (\<lambda>k. is_turn k \<or> is_greeting k) ((tasks st)[i := Finished]))) = in_flight st"
  using count_update [OF assms(1), of "\<lambda>k. is_turn k \<or> is_greeting k" Finished] assms(2)
  by (simp add: in_flight_def split: if_splits)

lemma exclusive_finish:
  assumes "exclusive st" and "i < length (tasks st)"
    and "is_turn (tasks st ! i) \<or> is_greeting (tasks st ! i)"
  shows "length (filter (\<lambda>k. is_turn k \<or> is_greeting k) ((tasks st)[i := Finished])) = 0"
  using in_flight_finish [OF assms(2,3)] assms(1) by (auto simp: exclusive_def)

lemma exclusive_step:
  assumes "exclusive st" and "\<not> is_start ev"
  shows "exclusive (step ev st)"
proof (cases ev)
  case (SttData u f)
  with assms(1) show ?thesis
    by (auto simp: exclusive_def in_flight_def on_stt_data_def Let_def)
next
  case (WsStart sid cid)
  with assms(2) show ?thesis by simp
next
  case (WsMedia b)
  with assms(1) show ?thesis
    by (auto simp: exclusive_def in_flight_def on_media_def split: option.splits)
next
  case (WsStop ready)
  with assms(1) show ?thesis
    by (auto simp: exclusive_def in_flight_def on_stop_def end_and_delete_def Let_def)
next
  case WsClose
  with assms(1) show ?thesis
    by (auto simp: exclusive_def in_flight_def on_close_def)
next
  case (AIReturns i r)
  show ?thesis
  proof (cases "i < length (tasks st) \<and> (\<exists>t. tasks st ! i = TurnAwaitAI t)")
    case False
    with AIReturns assms(1) show ?thesis
      by (auto simp: on_ai_returns_def split: task.splits)
  next
    case True
    then obtain t where i: "i < length (tasks st)" and t: "tasks st ! i = TurnAwaitAI t" by blast
    show ?thesis
    proof (cases r)
      case (Inl e)
      with AIReturns i t exclusive_finish [OF assms(1) i] show ?thesis
        by (simp add: on_ai_returns_def getAIResponse_def finish_turn_def exclusive_def in_flight_def)
    next
      case (Inr reply)
      from in_flight_advance [OF i, of TurnAwaitTTS] t
      have "length (filter (\<lambda>k. is_turn k \<or> is_greeting k) ((tasks st)[i := TurnAwaitTTS])) = in_flight st"
        by simp
      with Inr AIReturns i t assms(1) show ?thesis
        by (auto simp: on_ai_returns_def getAIResponse_def store_outcome_def Let_def
            exclusive_def in_flight_def)
    qed
  qed
next
  case (TTSReturns i r)
  show ?thesis
  proof (cases "i < length (tasks st)")
    case False
    with TTSReturns assms(1) show ?thesis by (simp add: on_tts_returns_def)
  next
    case i: True
    show ?thesis
    proof (cases "tasks st ! i")
      case TurnAwaitTTS
      show ?thesis
      proof (cases r)
        case (Inl e)
        with TTSReturns i TurnAwaitTTS exclusive_finish [OF assms(1) i] show ?thesis
          by (simp add: on_tts_returns_def finish_turn_def exclusive_def in_flight_def)
      next
        case (Inr audio)
        from in_flight_advance [OF i, of TurnAwaitSend] TurnAwaitTTS
        have "length (filter (\<lambda>k. is_turn k \<or> is_greeting k) ((tasks st)[i := TurnAwaitSend])) = in_flight st"
          by simp
        with Inr TTSReturns i TurnAwaitTTS assms(1) show ?thesis
          by (auto simp: on_tts_returns_def exclusive_def in_flight_def)
      qed
    next
      case GreetAwaitTTS
      show ?thesis
      proof (cases r)
        case (Inl e)
        with TTSReturns i GreetAwaitTTS exclusive_finish [OF assms(1) i] show ?thesis
          by (simp add: on_tts_returns_def greet_catch_def exclusive_def in_flight_def)
      next
        case (Inr audio)
        from in_flight_advance [OF i, of GreetAwaitSend] GreetAwaitTTS
        have "length (filter (\<lambda>k. is_turn k \<or> is_greeting k) ((tasks st)[i := GreetAwaitSend])) = in_flight st"
          by simp
        with Inr TTSReturns i GreetAwaitTTS assms(1) show ?thesis
          by (auto simp: on_tts_returns_def exclusive_def in_flight_def)
      qed
    next
      case StopAwaitTTS
      from in_flight_advance [OF i, of Finished] in_flight_advance [OF i, of StopAwaitSend] StopAwaitTTS
      have "length (filter (\<lambda>k. is_turn k \<or> is_greeting k) ((tasks st)[i := Finished])) = in_flight st"
        "length (filter (\<lambda>k. is_turn k \<or> is_greeting k) ((tasks st)[i := StopAwaitSend])) = in_flight st"
        by simp_all
      with TTSReturns i StopAwaitTTS assms(1) show ?thesis
        by (cases r) (auto simp: on_tts_returns_def end_and_delete_def exclusive_def in_flight_def)
    qed (use TTSReturns i assms(1) in \<open>simp_all add: on_tts_returns_def\<close>)
  qed
next
  case (SendReturns i r)
  show ?thesis
  proof (cases "i < length (tasks st)")
    case False
    with SendReturns assms(1) show ?thesis by (simp add: on_send_returns_def)
  next
    case i: True
    show ?thesis
    proof (cases "tasks st ! i")
      case TurnAwaitSend
      with SendReturns i exclusive_finish [OF assms(1) i] show ?thesis
        by (simp add: on_send_returns_def finish_turn_def exclusive_def in_flight_def)
    next
      case GreetAwaitSend
      with SendReturns i exclusive_finish [OF assms(1) i] show ?thesis
        by (cases r)
           (simp_all add: on_send_returns_def finish_turn_def greet_catch_def exclusive_def in_flight_def)
    next
      case StopAwaitSend
      from in_flight_advance [OF i, of Finished] StopAwaitSend
      have "length (filter (\<lambda>k. is_turn k \<or> is_greeting k) ((tasks st)[i := Finished])) = in_flight st"
        by simp
      with SendReturns i StopAwaitSend assms(1) show ?thesis
        by (auto simp: on_send_returns_def end_and_delete_def exclusive_def in_flight_def)
    qed (use SendReturns i assms(1) in \<open>simp_all add: on_send_returns_def\<close>)
  qed
qed

lemma exclusive_start:
  assumes "in_flight st = 0"
  shows "exclusive (step (WsStart sid cid) st)"
  using assms by (auto simp: exclusive_def in_flight_def on_start_def Let_def)

text \<open>
  After its \<open>start\<close> message a connection never has two turns, or a turn and the
  greeting, under way at the same time, and the flag is set for as long as one is.
\<close>

lemma one_turn_in_flight:
  assumes "exclusive st" and "\<forall>ev \<in> set evs. \<not> is_start ev"
  shows "exclusive (run evs st)"
  using assms
proof (induction evs arbitrary: st)
  case Nil
  then show ?case by (simp add: run_Nil)
next
  case (Cons ev evs)
  from Cons.prems have "exclusive (step ev st)" by (intro exclusive_step) simp_all
  with Cons show ?case by (simp add: run_Cons)
qed

lemma one_turn_in_flight_after_start:
  assumes "\<forall>ev \<in> set evs. \<not> is_start ev"
  shows "in_flight (run (WsStart sid cid # evs) (connect name stt cs)) \<le> 1"
proof -
  have "in_flight (connect name stt cs) = 0" by (simp add: in_flight_def connect_def)
  then have "exclusive (step (WsStart sid cid) (connect name stt cs))" by (rule exclusive_start)
  from one_turn_in_flight [OF this assms] show ?thesis
    by (auto simp: run_Cons exclusive_def)
qed

subsection \<open>Exclusive playback\<close>

lemma chunks_one_byte: "chunks chunkSize [b] = [[b]]"
  by (simp add: chunkSize_def chunks_step chunks_Nil)




subsection \<open>Release of the playing flag\<close>

lemma turn_start_raises_flag:
  assumes "registered st" and "\<not> isPlaying (sess st)" and "trim u \<noteq> []"
  shows "isPlaying (sess (step (SttData u True) st))
         \<and> tasks (step (SttData u True) st) = tasks st @ [TurnAwaitAI u]"
  using assms by (simp add: stt_final_idle)

lemma greeting_start_raises_flag:
  assumes "registered st"
  shows "isPlaying (sess (step (WsStart sid cid) st))
         \<and> tasks (step (WsStart sid cid) st) = tasks st @ [GreetAwaitTTS]"
  using assms by (simp add: on_start_def Let_def)

lemma turn_runs_to_its_end:
  assumes "i < length (tasks st)" and "tasks st ! i = TurnAwaitAI t"
  shows "tasks (run [AIReturns i ra, TTSReturns i rt, SendReturns i rs] st) ! i = Finished
         \<and> \<not> isPlaying (sess (run [AIReturns i ra, TTSReturns i rt, SendReturns i rs] st))"
proof (cases ra)
  case (Inl e)
  with assms show ?thesis
    by (simp add: run_Cons run_Nil on_ai_returns_def getAIResponse_def finish_turn_def
        on_tts_returns_def on_send_returns_def)
next
  case (Inr reply)
  define st1 where "st1 = on_ai_returns i (Inr reply) st"
  have s1: "i < length (tasks st1)" "tasks st1 ! i = TurnAwaitTTS"
    unfolding st1_def using assms by (simp_all add: ai_returns_text [OF assms])
  have run: "run [AIReturns i ra, TTSReturns i rt, SendReturns i rs] st
               = on_send_returns i rs (on_tts_returns i rt st1)"
    by (simp add: Inr run_Cons run_Nil st1_def)
  show ?thesis
  proof (cases rt)
    case (Inl e)
    with s1 show ?thesis
      unfolding run by (simp add: on_tts_returns_def finish_turn_def on_send_returns_def)
  next
    case (Inr audio)
    with s1 show ?thesis
      unfolding run by (simp add: on_tts_returns_def finish_turn_def on_send_returns_def)
  qed
qed

lemma greeting_runs_to_its_end:
  assumes "i < length (tasks st)" and "tasks st ! i = GreetAwaitTTS"
  shows "tasks (run [TTSReturns i rt, SendReturns i rs] st) ! i = Finished
         \<and> (registered st \<longrightarrow> \<not> isPlaying (sess (run [TTSReturns i rt, SendReturns i rs] st)))
         \<and> registered (run [TTSReturns i rt, SendReturns i rs] st) = registered st"
  using assms
  by (cases rt; cases rs)
     (simp_all add: run_Cons run_Nil on_tts_returns_def on_send_returns_def greet_catch_def
       finish_turn_def)

lemma finished_turn_released:
  assumes "i < length (tasks st)" and "is_turn (tasks st ! i)"
    and "tasks (step ev st) ! i = Finished"
  shows "\<not> isPlaying (sess (step ev st))"
proof (cases ev)
  case (SttData u f)
  with assms show ?thesis
    by (auto simp: on_stt_data_def Let_def nth_append split: if_splits)
next
  case (WsStart sid cid)
  with assms show ?thesis
    by (auto simp: on_start_def Let_def nth_append split: if_splits)
next
  case (WsMedia b)
  with assms show ?thesis
    by (auto simp: on_media_def split: if_splits option.splits)
next
  case (WsStop ready)
  with assms show ?thesis
    by (auto simp: on_stop_def end_and_delete_def Let_def nth_append split: if_splits)
next
  case WsClose
  with assms show ?thesis
    by (auto simp: on_close_def split: if_splits)
next
  case (AIReturns j r)
  with assms show ?thesis
    by (cases "j = i")
       (auto simp: on_ai_returns_def getAIResponse_def finish_turn_def store_outcome_def Let_def
          split: if_splits task.splits sum.splits)
next
  case (TTSReturns j r)
  with assms show ?thesis
    by (cases "j = i")
       (auto simp: on_tts_returns_def finish_turn_def greet_catch_def end_and_delete_def
          split: if_splits task.splits sum.splits)
next
  case (SendReturns j r)
  with assms show ?thesis
    by (cases "j = i")
       (auto simp: on_send_returns_def finish_turn_def greet_catch_def end_and_delete_def
          split: if_splits task.splits sum.splits)
qed

lemma finished_greeting_released:
  assumes "i < length (tasks st)" and "is_greeting (tasks st ! i)"
    and "tasks (step ev st) ! i = Finished" and "registered (step ev st)"
  shows "\<not> isPlaying (sess (step ev st))"
proof (cases ev)
  case (SttData u f)
  with assms show ?thesis
    by (auto simp: on_stt_data_def Let_def nth_append split: if_splits)
next
  case (WsStart sid cid)
  with assms show ?thesis
    by (auto simp: on_start_def Let_def nth_append split: if_splits)
next
  case (WsMedia b)
  with assms show ?thesis
    by (auto simp: on_media_def split: if_splits option.splits)
next
  case (WsStop ready)
  with assms show ?thesis
    by (auto simp: on_stop_def end_and_delete_def Let_def nth_append split: if_splits)
next
  case WsClose
  with assms show ?thesis
    by (auto simp: on_close_def split: if_splits)
next
  case (AIReturns j r)
  with assms show ?thesis
    by (cases "j = i")
       (auto simp: on_ai_returns_def getAIResponse_def finish_turn_def store_outcome_def Let_def
          split: if_splits task.splits sum.splits)
next
  case (TTSReturns j r)
  with assms show ?thesis
    by (cases "j = i")
       (auto simp: on_tts_returns_def finish_turn_def greet_catch_def end_and_delete_def
          split: if_splits task.splits sum.splits)
next
  case (SendReturns j r)
  with assms show ?thesis
    by (cases "j = i")
       (auto simp: on_send_returns_def finish_turn_def greet_catch_def end_and_delete_def
          split: if_splits task.splits sum.splits)
qed

lemma greeting_succeeds:
  assumes "i < length (tasks st)" and "tasks st ! i = GreetAwaitTTS"
  shows "tasks (run [TTSReturns i (Inr audio), SendReturns i (Inr ())] st) ! i = Finished
         \<and> \<not> isPlaying (sess (run [TTSReturns i (Inr audio), SendReturns i (Inr ())] st))"
  using assms
  by (simp add: run_Cons run_Nil on_tts_returns_def on_send_returns_def finish_turn_def)

text \<open>
  C6. A turn raises the flag when it starts (\<open>turn_start_raises_flag\<close>). Whatever the
  language model, the synthesis and the send return, result or error, the turn ends after
  at most three resumptions with the flag down; and any step at all that ends a turn
  leaves the flag down, so there is no other way out. That is the claim for the turn, whose
  \<open>finally\<close> block writes to the session object the handler captured. For the greeting
  the claim holds on the path without error, which writes to the captured object too. The
  \<open>catch\<close> block of the greeting looks the session up again and lowers the flag of the
  session it finds: the flag is lowered on a failure when the session is still in the
  table.
\<close>

theorem playing_flag_released:
  assumes "i < length (tasks st)"
  shows "(tasks st ! i = TurnAwaitAI t \<longrightarrow>
            tasks (run [AIReturns i ra, TTSReturns i rt, SendReturns i rs] st) ! i = Finished
            \<and> \<not> isPlaying (sess (run [AIReturns i ra, TTSReturns i rt, SendReturns i rs] st)))
         \<and> (is_turn (tasks st ! i) \<and> tasks (step ev st) ! i = Finished \<longrightarrow>
              \<not> isPlaying (sess (step ev st)))
         \<and> (tasks st ! i = GreetAwaitTTS \<longrightarrow>
              tasks (run [TTSReturns i (Inr audio), SendReturns i (Inr ())] st) ! i = Finished
              \<and> \<not> isPlaying (sess (run [TTSReturns i (Inr audio), SendReturns i (Inr ())] st)))
         \<and> (tasks st ! i = GreetAwaitTTS \<and> registered st \<longrightarrow>
              tasks (run [TTSReturns i rt, SendReturns i rs] st) ! i = Finished
              \<and> \<not> isPlaying (sess (run [TTSReturns i rt, SendReturns i rs] st)))
         \<and> (is_greeting (tasks st ! i) \<and> tasks (step ev st) ! i = Finished \<and> registered (step ev st) \<longrightarrow>
              \<not> isPlaying (sess (step ev st)))"
  using turn_runs_to_its_end [OF assms, of t ra rt rs] finished_turn_released [OF assms, of ev]
    greeting_succeeds [OF assms, of audio]
    greeting_runs_to_its_end [OF assms, of rt rs] finished_greeting_released [OF assms, of ev]
  by blast

theorem playing_flag_released_witness:
  "isPlaying (sess (step (SttData ''hello'' True) (connect ''Dana'' True no_calls)))
   \<and> \<not> isPlaying (sess (run [AIReturns 0 (Inl CollaboratorError), TTSReturns 0 (Inr [0, 0]), SendReturns 0 (Inr ())]
          (step (SttData ''hello'' True) (connect ''Dana'' True no_calls))))
   \<and> isPlaying (sess (step (WsStart (Some ''MZ1'') None) (connect ''Dana'' True no_calls)))
   \<and> \<not> isPlaying (sess (run [TTSReturns 0 (Inr [0, 0]), SendReturns 0 (Inr ())]
          (step (WsStart (Some ''MZ1'') None) (connect ''Dana'' True no_calls))))
   \<and> \<not> isPlaying (sess (run [TTSReturns 0 (Inl CollaboratorError), SendReturns 0 (Inr ())]
          (step (WsStart (Some ''MZ1'') None) (connect ''Dana'' True no_calls))))"
proof -
  let ?turn = "step (SttData ''hello'' True) (connect ''Dana'' True no_calls)"
  let ?greet = "step (WsStart (Some ''MZ1'') None) (connect ''Dana'' True no_calls)"
  have t: "isPlaying (sess ?turn)" "tasks ?turn = [TurnAwaitAI ''hello'']"
    using turn_start_raises_flag [of "connect ''Dana'' True no_calls" "''hello''"]
    by (simp_all add: connect_fields trim_hello)
  have g: "isPlaying (sess ?greet)" "tasks ?greet = [GreetAwaitTTS]" "registered ?greet"
    by (simp_all add: on_start_def connect_def new_session_def Let_def)
  have "0 < length (tasks ?turn)" using t by simp
  from playing_flag_released [OF this, of "''hello''" "Inl CollaboratorError" "Inr [0, 0]" "Inr ()"] t
  have one: "\<not> isPlaying (sess (run [AIReturns 0 (Inl CollaboratorError), TTSReturns 0 (Inr [0, 0]),
      SendReturns 0 (Inr ())] ?turn))"
    by simp
  have "0 < length (tasks ?greet)" using g by simp
  from playing_flag_released [OF this, of _ _ "Inl CollaboratorError" "Inr ()" _ "[0, 0]"] g
  have two: "\<not> isPlaying (sess (run [TTSReturns 0 (Inr [0, 0]), SendReturns 0 (Inr ())] ?greet))"
    and three: "\<not> isPlaying (sess (run [TTSReturns 0 (Inl CollaboratorError), SendReturns 0 (Inr ())] ?greet))"
    by simp_all
  from t(1) one g(1) two three show ?thesis by blast
qed

theorem greeting_failure_after_close:
  "tasks (run [WsStart (Some ''MZ1'') None, WsClose, TTSReturns 0 (Inl CollaboratorError)]
      (connect ''Dana'' True no_calls)) = [Finished]
   \<and> isPlaying (sess (run [WsStart (Some ''MZ1'') None, WsClose, TTSReturns 0 (Inl CollaboratorError)]
        (connect ''Dana'' True no_calls)))
   \<and> \<not> registered (run [WsStart (Some ''MZ1'') None, WsClose, TTSReturns 0 (Inl CollaboratorError)]
        (connect ''Dana'' True no_calls))"
  by (simp add: run_Cons run_Nil handler_defs connect_def new_session_def Let_def truthy_def)

subsection \<open>The stop message\<close>

lemma transcripts_step:
  "transcripts (sess (step ev st))
     = (case ev of
          SttData t f \<Rightarrow> if registered st \<and> f \<and> trim t \<noteq> []
                         then transcripts (sess st) @ [trim t] else transcripts (sess st)
        | _ \<Rightarrow> transcripts (sess st))"
proof (cases ev)
  case (SttData t f)
  then show ?thesis
    by (auto simp: on_stt_data_def Let_def trim_Nil)
next
  case (AIReturns j r)
  then show ?thesis
    by (simp add: on_ai_returns_def getAIResponse_def finish_turn_def store_outcome_def Let_def
        split: task.splits sum.splits prod.splits)
next
  case (TTSReturns j r)
  then show ?thesis
    by (simp add: on_tts_returns_def finish_turn_def greet_catch_def end_and_delete_def
        split: task.splits sum.splits)
next
  case (SendReturns j r)
  then show ?thesis
    by (simp add: on_send_returns_def finish_turn_def greet_catch_def end_and_delete_def
        split: task.splits sum.splits)
qed (simp_all add: on_start_def on_media_def on_stop_def on_close_def end_and_delete_def Let_def
      split: option.splits)

lemma stop_without_transcripts_open:
  assumes "registered st" and "transcripts (sess st) = []"
  shows "on_stop (Suc 0) st = st\<lparr>effects := effects st @ [SynthesizeSpeech fallback],
                                  tasks := tasks st @ [StopAwaitTTS]\<rparr>"
  using assms by (simp add: on_stop_def Let_def)

lemma stop_without_fallback:
  assumes "registered st" and "transcripts (sess st) \<noteq> [] \<or> ready \<noteq> 1"
  shows "on_stop ready st = end_and_delete st"
  using assms by (auto simp: on_stop_def Let_def)

lemma stop_fallback_played:
  assumes "registered st" and "transcripts (sess st) = []"
  shows "effects (run [WsStop 1, TTSReturns (length (tasks st)) (Inr audio),
                       SendReturns (length (tasks st)) r] st)
           = effects st @ [SynthesizeSpeech fallback, SendMedia (Some (sess st)) audio]
               @ (if recognizeStream st then [RecognizeEnd] else [])"
    and "effects (run [WsStop 1, TTSReturns (length (tasks st)) (Inl e)] st)
           = effects st @ [SynthesizeSpeech fallback]
               @ (if recognizeStream st then [RecognizeEnd] else [])"
    and "effects (step (WsStop 1) st) = effects st @ [SynthesizeSpeech fallback]"
    and "tasks (step (WsStop 1) st) = tasks st @ [StopAwaitTTS]"
  using assms
  by (simp_all add: run_Cons run_Nil stop_without_transcripts_open on_tts_returns_def
      on_send_returns_def end_and_delete_def sessions_get_def)

text \<open>
  C7. When the \<open>stop\<close> message finds a session without transcripts and the socket open,
  the handler asks once for the synthesis of the apology and becomes a task that waits for
  it. When the audio comes back, \<open>sendMedia\<close> is called once, with that audio and the
  session, and nothing else is played: on a socket that stays open the frames added are
  the frames of the encoding of that audio, under the session's stream id. A failed
  synthesis ends the matter without a playback. With the socket not open, or with at least
  one transcript stored, the handler only ends the recognizer stream and deletes the
  session: no synthesis, no task, no playback. The transcripts of a session are the
  trimmed final, non-blank results of the recognizer and nothing else
  (\<open>transcripts_step\<close>).
\<close>

theorem silence_fallback:
  assumes "registered st"
  shows "(transcripts (sess st) = [] \<longrightarrow>
            effects (step (WsStop 1) st) = effects st @ [SynthesizeSpeech fallback]
            \<and> tasks (step (WsStop 1) st) = tasks st @ [StopAwaitTTS]
            \<and> effects (run [WsStop 1, TTSReturns (length (tasks st)) (Inr audio),
                  SendReturns (length (tasks st)) r] st)
                = effects st @ [SynthesizeSpeech fallback, SendMedia (Some (sess st)) audio]
                    @ (if recognizeStream st then [RecognizeEnd] else [])
            \<and> playback_buffers (effects (run [WsStop 1, TTSReturns (length (tasks st)) (Inr audio),
                  SendReturns (length (tasks st)) r] st))
                = playback_buffers (effects st) @ [audio]
            \<and> (linear16ToMuLaw audio = Inr muLaw
                  \<and> (\<forall>j. readyState ws j = 1) \<and> (\<forall>j. \<not> send_throws ws j) \<longrightarrow>
                frames_sent ws (effects (run [WsStop 1, TTSReturns (length (tasks st)) (Inr audio),
                    SendReturns (length (tasks st)) r] st))
                  = frames_sent ws (effects st)
                      @ map (media_json (streamSid (sess st))) (chunks chunkSize muLaw))
            \<and> playback_buffers (effects (run [WsStop 1, TTSReturns (length (tasks st)) (Inl e)] st))
                = playback_buffers (effects st))
         \<and> (transcripts (sess st) \<noteq> [] \<or> ready \<noteq> 1 \<longrightarrow>
              effects (step (WsStop ready) st)
                = effects st @ (if recognizeStream st then [RecognizeEnd] else [])
              \<and> playback_buffers (effects (step (WsStop ready) st)) = playback_buffers (effects st)
              \<and> frames_sent ws (effects (step (WsStop ready) st)) = frames_sent ws (effects st)
              \<and> tasks (step (WsStop ready) st) = tasks st)"
proof -
  let ?ok = "run [WsStop 1, TTSReturns (length (tasks st)) (Inr audio), SendReturns (length (tasks st)) r] st"
  let ?end = "if recognizeStream st then [RecognizeEnd] else []"
  have silent: "effects (step (WsStop 1) st) = effects st @ [SynthesizeSpeech fallback]
            \<and> tasks (step (WsStop 1) st) = tasks st @ [StopAwaitTTS]
            \<and> effects ?ok = effects st @ [SynthesizeSpeech fallback, SendMedia (Some (sess st)) audio] @ ?end
            \<and> playback_buffers (effects ?ok) = playback_buffers (effects st) @ [audio]
            \<and> (linear16ToMuLaw audio = Inr muLaw
                  \<and> (\<forall>j. readyState ws j = 1) \<and> (\<forall>j. \<not> send_throws ws j) \<longrightarrow>
                frames_sent ws (effects ?ok)
                  = frames_sent ws (effects st)
                      @ map (media_json (streamSid (sess st))) (chunks chunkSize muLaw))
            \<and> playback_buffers (effects (run [WsStop 1, TTSReturns (length (tasks st)) (Inl e)] st))
                = playback_buffers (effects st)"
    if empty: "transcripts (sess st) = []"
  proof -
    note f = stop_fallback_played [OF assms empty]
    have frames: "frames_sent ws (effects ?ok)
                  = frames_sent ws (effects st)
                      @ map (media_json (streamSid (sess st))) (chunks chunkSize muLaw)"
      if "linear16ToMuLaw audio = Inr muLaw \<and> (\<forall>j. readyState ws j = 1) \<and> (\<forall>j. \<not> send_throws ws j)"
    proof -
      from that have "frames_of ws (SendMedia (Some (sess st)) audio)
                        = map (media_json (streamSid (sess st))) (chunks chunkSize muLaw)"
        using frames_of_playback [of audio muLaw ws "Some (sess st)"] by simp
      then show ?thesis
        unfolding f(1)
        by (simp add: frames_sent_append frames_sent_Cons frames_sent_Nil del: frames_of.simps(1))
    qed
    from f frames show ?thesis
      by (simp add: playback_buffers_append)
  qed
  have none: "effects (step (WsStop ready) st) = effects st @ ?end
              \<and> playback_buffers (effects (step (WsStop ready) st)) = playback_buffers (effects st)
              \<and> frames_sent ws (effects (step (WsStop ready) st)) = frames_sent ws (effects st)
              \<and> tasks (step (WsStop ready) st) = tasks st"
    if "transcripts (sess st) \<noteq> [] \<or> ready \<noteq> 1"
    using stop_without_fallback [OF assms that]
    by (simp add: end_and_delete_def playback_buffers_append frames_sent_append frames_sent_Cons
        frames_sent_Nil)
  from silent none show ?thesis by blast
qed

theorem silence_fallback_witness:
  "frames_sent open_socket (effects (run [WsStop 1, TTSReturns 0 (Inr [0, 0]), SendReturns 0 (Inr ())]
      (connect ''Dana'' True no_calls))) = [\<lparr>msg_streamSid = None, payload = [0xFF]\<rparr>]
   \<and> playback_buffers (effects (run [WsStop 1, TTSReturns 0 (Inr [0, 0]), SendReturns 0 (Inr ())]
      (connect ''Dana'' True no_calls))) = [[0, 0]]
   \<and> effects (step (WsStop 3) (connect ''Dana'' True no_calls)) = [RecognizeEnd]
   \<and> playback_buffers (effects (step (WsStop 1)
        (step (SttData ''hello'' True) (connect ''Dana'' True no_calls)))) = []"
proof -
  let ?c = "connect ''Dana'' True no_calls"
  let ?h = "step (SttData ''hello'' True) ?c"
  let ?ok = "run [WsStop 1, TTSReturns (length (tasks ?c)) (Inr [0, 0]), SendReturns (length (tasks ?c)) (Inr ())] ?c"
  have h: "registered ?h" "transcripts (sess ?h) \<noteq> [] \<or> (1::nat) \<noteq> 1"
    "playback_buffers (effects ?h) = []"
    by (simp_all add: stt_final_idle connect_fields trim_hello)
  have c: "recognizeStream ?c" "streamSid (sess ?c) = None" "frames_sent open_socket [] = []"
    by (simp_all add: connect_def new_session_def frames_sent_Nil)
  have silent: "transcripts (sess ?c) = []" and closed: "transcripts (sess ?c) \<noteq> [] \<or> (3::nat) \<noteq> 1"
    by (simp_all add: connect_fields)
  have sock: "linear16ToMuLaw [0, 0] = Inr [0xFF]
      \<and> (\<forall>j. readyState open_socket j = 1) \<and> (\<forall>j. \<not> send_throws open_socket j)"
    by (simp add: readInt16LE_zero linear_sample_zero open_socket_ready open_socket_sends)
  note inst = silence_fallback [OF connect_fields(1), of "''Dana''" True no_calls "[0, 0]" "Inr ()" "[0xFF]"
      open_socket CollaboratorError 3]
  from inst silent sock
  have "frames_sent open_socket (effects ?ok)
          = frames_sent open_socket (effects ?c)
              @ map (media_json (streamSid (sess ?c))) (chunks chunkSize [0xFF])"
    by blast
  then have a: "frames_sent open_socket (effects (run [WsStop 1, TTSReturns 0 (Inr [0, 0]),
      SendReturns 0 (Inr ())] ?c)) = [\<lparr>msg_streamSid = None, payload = [0xFF]\<rparr>]"
    by (simp add: connect_fields c chunks_one_byte media_json_def truthy_def)
  from inst silent
  have "playback_buffers (effects ?ok) = playback_buffers (effects ?c) @ [[0, 0]]"
    by blast
  then have a': "playback_buffers (effects (run [WsStop 1, TTSReturns 0 (Inr [0, 0]),
      SendReturns 0 (Inr ())] ?c)) = [[0, 0]]"
    by (simp add: connect_fields)
  from inst closed
  have "effects (step (WsStop 3) ?c) = effects ?c @ (if recognizeStream ?c then [RecognizeEnd] else [])"
    by blast
  then have b: "effects (step (WsStop 3) ?c) = [RecognizeEnd]"
    by (simp add: connect_fields c)
  from silence_fallback [OF h(1), of "[0, 0]" "Inr ()" "[0xFF]" open_socket CollaboratorError 1] h(2)
  have "playback_buffers (effects (step (WsStop 1) ?h)) = playback_buffers (effects ?h)"
    by blast
  with h(3) have d: "playback_buffers (effects (step (WsStop 1) ?h)) = []"
    by simp
  from a a' b d show ?thesis by blast
qed

subsection \<open>The stored outcome\<close>

lemma trim_tuesday: "trim ''Tuesday at 2pm works'' = ''Tuesday at 2pm works''"
  by (simp add: trim_def char_tabs)

lemma trim_bye: "trim ''okay bye'' = ''okay bye''"
  by (simp add: trim_def char_tabs)

lemma outcome_changed_by_classification_only:
  assumes "\<And>j reply. ev \<noteq> AIReturns j (Inr reply)"
  shows "outcome (sess (step ev st)) = outcome (sess st)"
proof (cases ev)
  case (AIReturns j r)
  with assms obtain e where "r = Inl e" by (cases r) auto
  with AIReturns show ?thesis
    by (simp add: on_ai_returns_def getAIResponse_def finish_turn_def split: task.splits)
next
  case (TTSReturns j r)
  then show ?thesis
    by (simp add: on_tts_returns_def finish_turn_def greet_catch_def end_and_delete_def
        split: task.splits sum.splits)
next
  case (SendReturns j r)
  then show ?thesis
    by (simp add: on_send_returns_def finish_turn_def greet_catch_def end_and_delete_def
        split: task.splits sum.splits)
qed (simp_all add: on_stt_data_def on_start_def on_media_def on_stop_def on_close_def
      end_and_delete_def Let_def split: option.splits)

text \<open>
  C1. The claim is that the first outcome stored on a session is never replaced. The
  handler stores the outcome of every classification whose type is not \<open>null\<close>,
  without looking at what the session already holds: the latest such classification
  wins. A classification without a type leaves the stored outcome alone, and so does
  every other event.
\<close>

theorem latest_classification_is_stored:
  "(i < length (tasks st) \<and> tasks st ! i = TurnAwaitAI t \<longrightarrow>
      outcome (sess (step (AIReturns i (Inr reply)) st))
        = (if type (analyzeOutcome t reply) = None then outcome (sess st)
           else Some (analyzeOutcome t reply)))
   \<and> ((\<forall>j r. ev \<noteq> AIReturns j (Inr r)) \<longrightarrow> outcome (sess (step ev st)) = outcome (sess st))"
proof -
  have "outcome (sess (step (AIReturns i (Inr reply)) st))
        = (if type (analyzeOutcome t reply) = None then outcome (sess st)
           else Some (analyzeOutcome t reply))"
    if "i < length (tasks st)" "tasks st ! i = TurnAwaitAI t"
    using ai_returns_text(1) [OF that, of reply] by simp
  moreover have "outcome (sess (step ev st)) = outcome (sess st)"
    if "\<forall>j r. ev \<noteq> AIReturns j (Inr r)"
    using that by (intro outcome_changed_by_classification_only) simp
  ultimately show ?thesis by blast
qed

theorem latest_classification_is_stored_witness:
  "outcome (sess (step (AIReturns 0 (Inr ''Understood. HANGUP''))
      (step (SttData ''okay bye'' True) (connect ''Dana'' True no_calls))))
     = Some \<lparr>type = Some hangup, details = Some ''Call ended''\<rparr>
   \<and> outcome (sess (step WsClose (connect ''Dana'' True no_calls))) = None"
proof -
  let ?c = "connect ''Dana'' True no_calls"
  let ?st = "step (SttData ''okay bye'' True) ?c"
  have st: "0 < length (tasks ?st) \<and> tasks ?st ! 0 = TurnAwaitAI ''okay bye''" "outcome (sess ?st) = None"
    by (simp_all add: stt_final_idle connect_fields trim_bye)
  from latest_classification_is_stored [of 0 ?st "''okay bye''" "''Understood. HANGUP''" WsClose] st
  have a: "outcome (sess (step (AIReturns 0 (Inr ''Understood. HANGUP'')) ?st))
     = Some \<lparr>type = Some hangup, details = Some ''Call ended''\<rparr>"
    by (simp add: classify_bye)
  from latest_classification_is_stored [of 0 ?c "''okay bye''" "''Understood. HANGUP''" WsClose]
  have b: "outcome (sess (step WsClose ?c)) = None"
    by (simp add: connect_fields)
  from a b show ?thesis by blast
qed

theorem stored_outcome_overwritten:
  "outcome (sess (run [SttData ''Tuesday at 2pm works'' True,
                       AIReturns 0 (Inr ''Great, see you then. HANGUP'')]
      (connect ''Dana'' True no_calls)))
     = Some \<lparr>type = Some scheduled, details = Some ''Tuesday 2 PM''\<rparr>
   \<and> outcome (sess (run [SttData ''Tuesday at 2pm works'' True,
                         AIReturns 0 (Inr ''Great, see you then. HANGUP''),
                         TTSReturns 0 (Inr [0, 0]),
                         SendReturns 0 (Inr ()),
                         SttData ''okay bye'' True,
                         AIReturns 1 (Inr ''Understood. HANGUP'')]
      (connect ''Dana'' True no_calls)))
     = Some \<lparr>type = Some hangup, details = Some ''Call ended''\<rparr>"
  by (simp add: run_Cons run_Nil handler_defs connect_def new_session_def no_calls_def Let_def
      trim_tuesday trim_bye classify_tuesday classify_bye)

end
